theory Spec2Isabelle
  imports Main
begin

section \<open>The graffiti client: a shallow embedding of graffiti.js\<close>

text \<open>
  graffiti.js holds two editions of the client class. The first one files objects under
  \<^emph>\<open>tags\<close> and keys its cache by a derived identifier (\<open>_by + _key\<close>); it is called the
  tag variant here and its definitions carry the source's names. The second one files
  objects under \<^emph>\<open>contexts\<close> and keys its cache by the object's own \<open>id\<close>; it is the
  context variant, and its definitions carry the prefix \<open>ctx_\<close>.

  Conventions of the embedding:
  \<^item> \<open>tagMap\<close>, \<open>contextMap\<close> and \<open>objectMap\<close> are object literals used as dictionaries. Their
    own properties are an association list in insertion order (the order of \<open>Object.keys\<close>
    and of \<open>for .. in\<close>; the special order of integer-like keys is left out) for the first
    two, and a map for \<open>objectMap\<close>, which is only indexed and cleared. The operator \<open>in\<close>
    and a read also see the properties inherited from \<open>Object.prototype\<close>;
  \<^item> a JavaScript \<open>Set\<close> is a list without repetition in insertion order;
  \<^item> \<open>null\<close> and \<open>undefined\<close> are \<open>None\<close>;
  \<^item> an object is a value: the fields the client reads and the rest as a payload. What
    the client is handed is an object or a \<open>Proxy\<close> around one: the object and the number
    of proxies around it. Reading through a proxy gives the fields of the object;
  \<^item> a throw is \<open>Inl\<close> of the error, returned together with the state at the throw;
  \<^item> \<open>crypto.randomUUID()\<close> and the server's answer are parameters;
  \<^item> an asynchronous method is split at its \<open>await\<close>: the part that runs at the call, and
    the handler that runs if the request is rejected. A reply that never arrives leaves
    the state where the first part put it.

  The methods that write fields of their argument (\<open>update\<close>, \<open>#post\<close>) are embedded for a
  plain object as argument. Called with a cached object, which is a proxy, the writes
  run its \<open>set\<close> trap; the traps for single property writes, authorization, the
  reconnection timer and \<open>objects\<close> are not part of the embedding.

  \<open>Object.prototype\<close> itself is not part of the state: a state stands for a client whose
  dictionaries inherit what the engine defines and nothing else. The code can change that
  in two places, both through the name \<open>__proto__\<close>: counting on it writes \<open>count\<close> onto
  \<open>Object.prototype\<close>, and storing under it replaces the prototype of \<open>objectMap\<close>. What
  the changed prototype does from then on (to the rest of that call and to later calls:
  \<open>count\<close>, for one, is an inherited name afterwards) is not followed, so the properties
  below that speak of every label are stated for labels and identifiers that are not
  inherited names.
\<close>

subsection \<open>Dictionaries and sets\<close>

type_synonym label = string
type_synonym ident = string

text \<open>
  The property names every object literal inherits from \<open>Object.prototype\<close> (ECMAScript,
  Annex B included). All are functions but \<open>__proto__\<close>, an accessor that gives the
  prototype object.
\<close>

definition inherited_names :: "string list" where
  "inherited_names =
     [''constructor'', ''__defineGetter__'', ''__defineSetter__'', ''hasOwnProperty'',
      ''__lookupGetter__'', ''__lookupSetter__'', ''isPrototypeOf'', ''propertyIsEnumerable'',
      ''toString'', ''valueOf'', ''__proto__'', ''toLocaleString'']"

definition inherited :: "string \<Rightarrow> bool" where
  "inherited k = (k \<in> set inherited_names)"

text \<open>
  \<open>Object.keys(m)\<close>, and whether \<open>k\<close> is one of them: \<open>k\<close> has a slot of its own. The own
  value \<open>m[k]\<close> is \<open>map_of m k\<close>.
\<close>

definition keys :: "('k \<times> 'v) list \<Rightarrow> 'k list" where
  "keys m = map fst m"

definition has_key :: "'k \<Rightarrow> ('k \<times> 'v) list \<Rightarrow> bool" where
  "has_key k m = (k \<in> set (keys m))"

text \<open>
  \<open>k in m\<close>: true of an own key and of an inherited name. For an inherited name without
  an own slot, \<open>m[k]\<close> is the prototype's value, which has no \<open>uuids\<close> or \<open>ids\<close>, and on which
  \<open>count++\<close> and \<open>count--\<close> give \<open>NaN\<close> and touch no slot.
\<close>

definition js_in :: "string \<Rightarrow> (string \<times> 'v) list \<Rightarrow> bool" where
  "js_in k m = (has_key k m \<or> inherited k)"

text \<open>In-place change of the value stored under a key (\<open>m[k].field = ..\<close>).\<close>

definition modify :: "'k \<Rightarrow> ('v \<Rightarrow> 'v) \<Rightarrow> ('k \<times> 'v) list \<Rightarrow> ('k \<times> 'v) list" where
  "modify k f m = map (\<lambda>(k', v). if k' = k then (k', f v) else (k', v)) m"

text \<open>\<open>delete m[k]\<close>.\<close>

definition remove_key :: "'k \<Rightarrow> ('k \<times> 'v) list \<Rightarrow> ('k \<times> 'v) list" where
  "remove_key k m = filter (\<lambda>p. fst p \<noteq> k) m"

text \<open>
  \<open>u in objectMap\<close>, and \<open>objectMap[u] = v\<close>. The assignment makes an own property, except
  under \<open>__proto__\<close>, where it runs the inherited setter and makes none.
\<close>

definition cached_in :: "string \<Rightarrow> (string \<rightharpoonup> 'v) \<Rightarrow> bool" where
  "cached_in u om = (inherited u \<or> om u \<noteq> None)"

definition store :: "string \<Rightarrow> 'v \<Rightarrow> (string \<rightharpoonup> 'v) \<Rightarrow> (string \<rightharpoonup> 'v)" where
  "store u v om = (if u = ''__proto__'' then om else om(u \<mapsto> v))"

text \<open>\<open>Set.prototype.add\<close> and \<open>Set.prototype.delete\<close>.\<close>

definition set_add :: "'a \<Rightarrow> 'a list \<Rightarrow> 'a list" where
  "set_add x xs = (if x \<in> set xs then xs else xs @ [x])"

definition set_delete :: "'a \<Rightarrow> 'a list \<Rightarrow> 'a list" where
  "set_delete x xs = removeAll x xs"

text \<open>\<open>xs.filter(x => x != null)\<close>.\<close>

fun non_null :: "'a option list \<Rightarrow> 'a list" where
  "non_null [] = []"
| "non_null (None # xs) = non_null xs"
| "non_null (Some x # xs) = x # non_null xs"

text \<open>
  What the client is handed: the object \<open>target\<close>, behind \<open>proxies\<close> layers of \<open>Proxy\<close>.
  \<open>Via 0 x\<close> is the plain object \<open>x\<close>. \<open>wrap\<close> is \<open>new Proxy(object, handler)\<close>.
\<close>

datatype 'o ref = Via (proxies: nat) (target: 'o)

definition wrap :: "'o ref \<Rightarrow> 'o ref" where
  "wrap r = Via (Suc (proxies r)) (target r)"

subsection \<open>The connection and \<open>#request\<close>\<close>

datatype error = NotConnected | ServerError | IdentityError | TypeError

text \<open>
  What the server answers to a request that was written to the channel: a reply, or a
  frame of kind error.
\<close>

datatype reply = Reply | ErrorReply

text \<open>
  \<open>sent\<close> lists the frames written with \<open>ws.send\<close>. \<open>requests\<close> lists the argument of
  every call of \<open>#request\<close>, written or not; it is a log added by the model so that a
  request made while the connection is closed can be counted.
\<close>

record 'm conn =
  is_open :: bool
  requests :: "'m list"
  sent :: "'m list"

text \<open>
  \<open>#request\<close> up to its \<open>await\<close>: it throws before any write when the connection is not
  open, and writes the frame otherwise. Both editions share this code.
\<close>

definition request :: "'m \<Rightarrow> ('m, 'z) conn_scheme \<Rightarrow> (error + unit) \<times> ('m, 'z) conn_scheme" where
  "request msg st =
     (let st1 = st\<lparr>requests := requests st @ [msg]\<rparr> in
      if \<not> is_open st1 then (Inl NotConnected, st1)
      else (Inr (), st1\<lparr>sent := sent st1 @ [msg]\<rparr>))"

text \<open>The promise of \<open>#request\<close>: how it settles once the server has answered.\<close>

definition settle :: "error + unit \<Rightarrow> reply \<Rightarrow> error + unit" where
  "settle written r =
     (case written of
        Inl e \<Rightarrow> Inl e
      | Inr _ \<Rightarrow> (case r of Reply \<Rightarrow> Inr () | ErrorReply \<Rightarrow> Inl ServerError))"

text \<open>The requests; \<open>'o\<close> is the type of objects, \<open>'k\<close> the type of what names one.\<close>

datatype ('o, 'k) msg =
    Update 'o
  | Remove 'k
  | Subscribe "label list"
  | Unsubscribe "label list"
  | Ls
  | Get 'k 'k

subsection \<open>The tag variant: data\<close>

text \<open>
  The property \<open>_id\<close> of an object: absent, an ordinary property (as it arrives in a
  frame or from a caller), or the property \<open>#updateCallback\<close> defined, which can be neither
  written nor redefined and is not enumerable.
\<close>

datatype id_prop = NoId | PlainId string | FixedId string

text \<open>
  An object: \<open>_by\<close>, \<open>_key\<close>, \<open>_tags\<close>, \<open>_id\<close>, and everything else as \<open>t_payload\<close>.
\<close>

record 'p tobject =
  t_by :: "string option"
  t_key :: "string option"
  t_tags :: "label list"
  t_id :: id_prop
  t_payload :: 'p

type_synonym 'p tmsg = "('p tobject, string option) msg"

text \<open>A slot of \<open>tagMap\<close>: \<open>{uuids: Set, count}\<close>.\<close>

record slot =
  uuids :: "ident list"
  count :: int

record 'p tstate = "'p tmsg conn" +
  myID :: "string option"
  tagMap :: "(label \<times> slot) list"
  objectMap :: "ident \<rightharpoonup> 'p tobject ref"

text \<open>The constructor: closed, nothing subscribed, nothing cached.\<close>

definition initial :: "string option \<Rightarrow> 'p tstate" where
  "initial me =
     \<lparr>is_open = False, requests = [], sent = [], myID = me, tagMap = [], objectMap = Map.empty\<rparr>"

subsection \<open>The tag variant: operations\<close>

text \<open>JavaScript's \<open>!s\<close> for a string that may be missing.\<close>

definition falsy :: "string option \<Rightarrow> bool" where
  "falsy s = (s = None \<or> s = Some [])"

definition objectUUID :: "'p tobject \<Rightarrow> error + ident" where
  "objectUUID object =
     (case (t_by object, t_key object) of
        (Some b, Some k) \<Rightarrow> if b = [] \<or> k = [] then Inl IdentityError else Inr (b @ k)
      | _ \<Rightarrow> Inl IdentityError)"

text \<open>
  \<open>Object.defineProperty(object, '_id', { value: uuid })\<close>. An absent \<open>_id\<close> becomes the fixed
  one; an ordinary one takes the value and stays ordinary; a fixed one with another value
  cannot be redefined, which is a TypeError. \<open>with_id\<close> is the object after a definition
  that went through.
\<close>

definition with_id :: "ident \<Rightarrow> 'p tobject \<Rightarrow> 'p tobject" where
  "with_id uuid object =
     (case t_id object of
        NoId \<Rightarrow> object\<lparr>t_id := FixedId uuid\<rparr>
      | PlainId v \<Rightarrow> object\<lparr>t_id := PlainId uuid\<rparr>
      | FixedId v \<Rightarrow> object)"

definition define_id :: "ident \<Rightarrow> 'p tobject \<Rightarrow> error + 'p tobject" where
  "define_id uuid object =
     (case t_id object of
        FixedId v \<Rightarrow> if v = uuid then Inr object else Inl TypeError
      | _ \<Rightarrow> Inr (with_id uuid object))"

text \<open>
  The own enumerable properties of an object, which is what \<open>Object.assign({}, object)\<close>
  copies and what \<open>JSON.stringify(object)\<close> writes: a fixed \<open>_id\<close> is not among them.
\<close>

definition snapshot :: "'p tobject \<Rightarrow> 'p tobject" where
  "snapshot object = (case t_id object of FixedId v \<Rightarrow> object\<lparr>t_id := NoId\<rparr> | _ \<Rightarrow> object)"

text \<open>
  The loop of \<open>#updateCallback\<close> over \<open>object._tags\<close>, with the flag \<open>subscribed\<close>. For a tag
  that is \<open>in\<close> the dictionary without a slot of its own, \<open>.uuids.add\<close> is a TypeError; the
  tags before it have been served.
\<close>

fun add_loop ::
  "ident \<Rightarrow> label list \<Rightarrow> (label \<times> slot) list \<Rightarrow> bool \<Rightarrow> (error + bool) \<times> (label \<times> slot) list" where
  "add_loop uuid [] tm subscribed = (Inr subscribed, tm)"
| "add_loop uuid (tag # tags) tm subscribed =
     (if \<not> js_in tag tm then add_loop uuid tags tm subscribed
      else if \<not> has_key tag tm then (Inl TypeError, tm)
      else add_loop uuid tags (modify tag (\<lambda>s. s\<lparr>uuids := set_add uuid (uuids s)\<rparr>) tm) True)"

text \<open>
  What \<open>#updateCallback\<close> returns: nothing (\<open>undefined\<close> at the early return, or \<open>null\<close>; its
  callers only test the result for truth), the copy of the entry it replaced, or, when
  the identifier is an inherited name with no entry, the copy of the prototype's value:
  an object without owner, key or tags.
\<close>

datatype 'p original = NoOriginal | Original "'p tobject" | PrototypeCopy

text \<open>
  \<open>#updateCallback\<close>. The model also gives back the argument as the call left it, since
  the definition of \<open>_id\<close> changes the object in place.
\<close>

definition updateCallback ::
  "'p tobject ref \<Rightarrow> 'p tstate \<Rightarrow> (error + 'p original \<times> 'p tobject ref) \<times> 'p tstate" where
  "updateCallback object st =
     (case objectUUID (target object) of
        Inl e \<Rightarrow> (Inl e, st)
      | Inr uuid \<Rightarrow>
          (case add_loop uuid (t_tags (target object)) (tagMap st) False of
             (Inl e, tm) \<Rightarrow> (Inl e, st\<lparr>tagMap := tm\<rparr>)
           | (Inr subscribed, tm) \<Rightarrow>
               if \<not> subscribed then (Inr (NoOriginal, object), st\<lparr>tagMap := tm\<rparr>)
               else
                 (let originalObject =
                        (if cached_in uuid (objectMap st)
                         then (case objectMap st uuid of
                                 Some entry \<Rightarrow> Original (snapshot (target entry))
                               | None \<Rightarrow> PrototypeCopy)
                         else NoOriginal)
                  in case define_id uuid (target object) of
                       Inl e \<Rightarrow> (Inl e, st\<lparr>tagMap := tm\<rparr>)
                     | Inr defined \<Rightarrow>
                         (Inr (originalObject, Via (proxies object) defined),
                          st\<lparr>tagMap := tm,
                             objectMap := store uuid (wrap (Via (proxies object) defined))
                                            (objectMap st)\<rparr>))))"

text \<open>
  The loop of \<open>#removeCallback\<close> over \<open>object._tags\<close>; \<open>.uuids.delete\<close> throws like
  \<open>.uuids.add\<close>.
\<close>

fun delete_loop ::
  "ident \<Rightarrow> label list \<Rightarrow> (label \<times> slot) list \<Rightarrow> (error + unit) \<times> (label \<times> slot) list" where
  "delete_loop uuid [] tm = (Inr (), tm)"
| "delete_loop uuid (tag # tags) tm =
     (if \<not> js_in tag tm then delete_loop uuid tags tm
      else if \<not> has_key tag tm then (Inl TypeError, tm)
      else delete_loop uuid tags (modify tag (\<lambda>s. s\<lparr>uuids := set_delete uuid (uuids s)\<rparr>) tm))"

text \<open>\<open>#removeCallback\<close>; it only reads the fields of its argument.\<close>

definition removeCallback :: "'p tobject \<Rightarrow> 'p tstate \<Rightarrow> (error + unit) \<times> 'p tstate" where
  "removeCallback object st =
     (case objectUUID object of
        Inl e \<Rightarrow> (Inl e, st)
      | Inr uuid \<Rightarrow>
          (case delete_loop uuid (t_tags object) (tagMap st) of
             (Inl e, tm) \<Rightarrow> (Inl e, st\<lparr>tagMap := tm\<rparr>)
           | (Inr _, tm) \<Rightarrow>
               (Inr (),
                st\<lparr>tagMap := tm,
                   objectMap := (if cached_in uuid (objectMap st)
                                 then (objectMap st)(uuid := None) else objectMap st)\<rparr>)))"

text \<open>
  \<open>update\<close>, for a plain object, in two parts. \<open>update_begin\<close> runs up to the \<open>await\<close>: it
  stamps the object, installs it and makes the request; it gives back the object, the
  copy of the replaced entry and whether the request was written. \<open>update_catch\<close> is the
  \<open>catch\<close> block. \<open>update\<close> runs both with nothing in between.
\<close>

definition stamp :: "string option \<Rightarrow> string \<Rightarrow> 'p tobject \<Rightarrow> 'p tobject" where
  "stamp me fresh object =
     object\<lparr>t_by := me, t_key := (if falsy (t_key object) then Some fresh else t_key object)\<rparr>"

definition update_begin ::
  "'p tobject \<Rightarrow> string \<Rightarrow> 'p tstate \<Rightarrow>
   (error + 'p tobject \<times> 'p original \<times> (error + unit)) \<times> 'p tstate" where
  "update_begin object0 fresh st =
     (case updateCallback (Via 0 (stamp (myID st) fresh object0)) st of
        (Inl e, st1) \<Rightarrow> (Inl e, st1)
      | (Inr (originalObject, object), st1) \<Rightarrow>
          (case request (Update (snapshot (target object))) st1 of
             (written, st2) \<Rightarrow> (Inr (target object, originalObject, written), st2)))"

definition update_catch ::
  "error \<Rightarrow> 'p tobject \<Rightarrow> 'p original \<Rightarrow> 'p tstate \<Rightarrow> (error + unit) \<times> 'p tstate" where
  "update_catch e object originalObject st =
     (case originalObject of
        Original original \<Rightarrow>
          (case updateCallback (Via 0 original) st of
             (Inl e', st1) \<Rightarrow> (Inl e', st1)
           | (Inr _, st1) \<Rightarrow> (Inl e, st1))
      | PrototypeCopy \<Rightarrow> (Inl IdentityError, st)
      | NoOriginal \<Rightarrow>
          (case removeCallback object st of
             (Inl e', st1) \<Rightarrow> (Inl e', st1)
           | (Inr _, st1) \<Rightarrow> (Inl e, st1)))"

definition update :: "'p tobject \<Rightarrow> string \<Rightarrow> reply \<Rightarrow> 'p tstate \<Rightarrow> (error + unit) \<times> 'p tstate" where
  "update object0 fresh r st =
     (case update_begin object0 fresh st of
        (Inl e, st1) \<Rightarrow> (Inl e, st1)
      | (Inr (object, originalObject, written), st1) \<Rightarrow>
          (case settle written r of
             Inr _ \<Rightarrow> (Inr (), st1)
           | Inl e \<Rightarrow> update_catch e object originalObject st1))"

text \<open>
  \<open>#deleteObjectProperty\<close> for one of \<open>_key\<close>, \<open>_by\<close>, \<open>_tags\<close> on the object itself, which
  deletes the whole object; it only reads the fields of the object. The call returns
  \<open>false\<close> without a request when the identifier is not \<open>in\<close> the cache; the handler of a
  rejected request puts back the copy taken at the start.
\<close>

definition deleteObject_begin ::
  "'p tobject \<Rightarrow> 'p tstate \<Rightarrow> (error + bool \<times> 'p tobject \<times> (error + unit)) \<times> 'p tstate" where
  "deleteObject_begin object st =
     (let originalObject = snapshot object in
      case objectUUID object of
        Inl e \<Rightarrow> (Inl e, st)
      | Inr uuid \<Rightarrow>
          (case delete_loop uuid (t_tags object) (tagMap st) of
             (Inl e, tm) \<Rightarrow> (Inl e, st\<lparr>tagMap := tm\<rparr>)
           | (Inr _, tm) \<Rightarrow>
               if \<not> cached_in uuid (objectMap st)
               then (Inr (False, originalObject, Inr ()), st\<lparr>tagMap := tm\<rparr>)
               else
                 (case request (Remove (t_key object))
                         (st\<lparr>tagMap := tm, objectMap := (objectMap st)(uuid := None)\<rparr>) of
                    (written, st2) \<Rightarrow> (Inr (True, originalObject, written), st2))))"

definition deleteObject_catch :: "'p tobject \<Rightarrow> 'p tstate \<Rightarrow> 'p tstate" where
  "deleteObject_catch originalObject st = snd (updateCallback (Via 0 originalObject) st)"

definition deleteObject :: "'p tobject \<Rightarrow> reply \<Rightarrow> 'p tstate \<Rightarrow> (error + bool) \<times> 'p tstate" where
  "deleteObject object r st =
     (case deleteObject_begin object st of
        (Inl e, st1) \<Rightarrow> (Inl e, st1)
      | (Inr (False, originalObject, written), st1) \<Rightarrow> (Inr False, st1)
      | (Inr (True, originalObject, written), st1) \<Rightarrow>
          (case settle written r of
             Inr _ \<Rightarrow> (Inr True, st1)
           | Inl e \<Rightarrow> (Inr True, deleteObject_catch originalObject st1)))"

text \<open>
  The loop of \<open>subscribe\<close>, with the list \<open>subscribingTags\<close>. For a tag that is \<open>in\<close> the
  dictionary without a slot of its own, \<open>count++\<close> counts on the prototype's value: no slot
  is made and the tag is not collected.
\<close>

fun subscribe_loop :: "label list \<Rightarrow> (label \<times> slot) list \<Rightarrow> label list \<Rightarrow> (label \<times> slot) list \<times> label list" where
  "subscribe_loop [] tm subscribingTags = (tm, subscribingTags)"
| "subscribe_loop (tag # tags) tm subscribingTags =
     (if js_in tag tm
      then subscribe_loop tags (modify tag (\<lambda>s. s\<lparr>count := count s + 1\<rparr>) tm) subscribingTags
      else subscribe_loop tags (tm @ [(tag, \<lparr>uuids = [], count = 1\<rparr>)]) (subscribingTags @ [tag]))"

text \<open>\<open>subscribe\<close>: the error of the request is swallowed, so only the state comes back.\<close>

definition subscribe :: "label option list \<Rightarrow> 'p tstate \<Rightarrow> 'p tstate" where
  "subscribe tags0 st =
     (case subscribe_loop (non_null tags0) (tagMap st) [] of
        (tm, subscribingTags) \<Rightarrow>
          if subscribingTags \<noteq> [] then snd (request (Subscribe subscribingTags) (st\<lparr>tagMap := tm\<rparr>))
          else st\<lparr>tagMap := tm\<rparr>)"

text \<open>
  The loop of \<open>unsubscribe\<close>, with the list \<open>unsubscribingTags\<close>. \<open>this.tagMap[tag].count--\<close>
  on a tag that is not \<open>in\<close> the dictionary is a TypeError. On an inherited name without a
  slot of its own it gives \<open>NaN\<close>, so the tag is collected, and \<open>delete\<close> finds no slot.
\<close>

fun unsubscribe_loop ::
  "label list \<Rightarrow> (label \<times> slot) list \<Rightarrow> label list \<Rightarrow> (error + label list) \<times> (label \<times> slot) list" where
  "unsubscribe_loop [] tm unsubscribingTags = (Inr unsubscribingTags, tm)"
| "unsubscribe_loop (tag # tags) tm unsubscribingTags =
     (case map_of tm tag of
        None \<Rightarrow>
          if inherited tag then unsubscribe_loop tags tm (unsubscribingTags @ [tag])
          else (Inl TypeError, tm)
      | Some s \<Rightarrow>
          if count s - 1 = 0
          then unsubscribe_loop tags (remove_key tag tm) (unsubscribingTags @ [tag])
          else unsubscribe_loop tags (modify tag (\<lambda>s. s\<lparr>count := count s - 1\<rparr>) tm) unsubscribingTags)"

definition unsubscribe :: "label option list \<Rightarrow> 'p tstate \<Rightarrow> (error + unit) \<times> 'p tstate" where
  "unsubscribe tags0 st =
     (case unsubscribe_loop (non_null tags0) (tagMap st) [] of
        (Inl e, tm) \<Rightarrow> (Inl e, st\<lparr>tagMap := tm\<rparr>)
      | (Inr unsubscribingTags, tm) \<Rightarrow>
          if unsubscribingTags \<noteq> []
          then (Inr (), snd (request (Unsubscribe unsubscribingTags) (st\<lparr>tagMap := tm\<rparr>)))
          else (Inr (), st\<lparr>tagMap := tm\<rparr>))"

text \<open>\<open>#onOpen\<close> up to its \<open>await\<close>, and \<open>#onClose\<close>.\<close>

definition onOpen :: "'p tstate \<Rightarrow> (error + unit) \<times> 'p tstate" where
  "onOpen st =
     (let st1 = st\<lparr>is_open := True\<rparr>;
          st2 = st1\<lparr>tagMap := map (\<lambda>(tag, s). (tag, s\<lparr>uuids := []\<rparr>)) (tagMap st1)\<rparr>;
          st3 = st2\<lparr>objectMap := Map.empty\<rparr>;
          tags = keys (tagMap st3)
      in if tags \<noteq> [] then request (Subscribe tags) st3 else (Inr (), st3))"

definition onClose :: "'p tstate \<Rightarrow> 'p tstate" where
  "onClose st = st\<lparr>is_open := False\<rparr>"

text \<open>\<open>myTags\<close> and \<open>objectByKey\<close>: one request each.\<close>

definition myTags :: "'p tstate \<Rightarrow> (error + unit) \<times> 'p tstate" where
  "myTags st = request Ls st"

definition objectByKey :: "string option \<Rightarrow> string option \<Rightarrow> 'p tstate \<Rightarrow> (error + unit) \<times> 'p tstate" where
  "objectByKey userID objectKey st = request (Get userID objectKey) st"

subsection \<open>The context variant: data\<close>

text \<open>
  An object: \<open>id\<close>, \<open>context\<close>, everything else as \<open>c_payload\<close>, and whether it has the
  property \<open>__graffitiProxy\<close>.
\<close>

record 'p cobject =
  c_id :: ident
  c_context :: "label list"
  c_payload :: 'p
  marker :: bool

type_synonym 'p cmsg = "('p cobject, ident) msg"

text \<open>A slot of \<open>contextMap\<close>: \<open>{ids: Set, count}\<close>.\<close>

record cslot =
  ids :: "ident list"
  ctx_count :: int

record 'p cstate = "'p cmsg conn" +
  contextMap :: "(label \<times> cslot) list"
  ctx_objectMap :: "ident \<rightharpoonup> 'p cobject ref"

definition ctx_initial :: "'p cstate" where
  "ctx_initial =
     \<lparr>is_open = False, requests = [], sent = [], contextMap = [], ctx_objectMap = Map.empty\<rparr>"

subsection \<open>The context variant: operations\<close>

text \<open>
  The guarded wrapping of \<open>#updateCallback\<close>: the marker is defined on the object it is
  handed, which then goes behind one more proxy; with the marker there, nothing is done.
  \<open>ctx_snapshot\<close> is \<open>Object.assign({}, object)\<close> and \<open>JSON.stringify(object)\<close>: the marker,
  defined as a non-enumerable property, is not copied.
\<close>

definition ctx_wrap :: "'p cobject ref \<Rightarrow> 'p cobject ref" where
  "ctx_wrap object =
     (if \<not> marker (target object) then wrap (Via (proxies object) ((target object)\<lparr>marker := True\<rparr>))
      else object)"

definition ctx_snapshot :: "'p cobject \<Rightarrow> 'p cobject" where
  "ctx_snapshot object = object\<lparr>marker := False\<rparr>"

text \<open>\<open>[...object.context, object.id]\<close>.\<close>

definition labels_of :: "'p cobject \<Rightarrow> label list" where
  "labels_of object = c_context object @ [c_id object]"

text \<open>
  The loop of \<open>#updateCallback\<close>, with the flag \<open>subscribed\<close>; \<open>.ids.add\<close> throws where
  \<open>.uuids.add\<close> does in the tag variant.
\<close>

fun ctx_add_loop ::
  "ident \<Rightarrow> label list \<Rightarrow> (label \<times> cslot) list \<Rightarrow> bool \<Rightarrow> (error + bool) \<times> (label \<times> cslot) list" where
  "ctx_add_loop i [] cm subscribed = (Inr subscribed, cm)"
| "ctx_add_loop i (c # cs) cm subscribed =
     (if \<not> js_in c cm then ctx_add_loop i cs cm subscribed
      else if \<not> has_key c cm then (Inl TypeError, cm)
      else ctx_add_loop i cs (modify c (\<lambda>s. s\<lparr>ids := set_add i (ids s)\<rparr>) cm) True)"

definition ctx_updateCallback ::
  "'p cobject ref \<Rightarrow> 'p cstate \<Rightarrow> (error + 'p cobject ref) \<times> 'p cstate" where
  "ctx_updateCallback object0 st =
     (case ctx_add_loop (c_id (target object0)) (labels_of (target object0)) (contextMap st) False of
        (Inl e, cm) \<Rightarrow> (Inl e, st\<lparr>contextMap := cm\<rparr>)
      | (Inr subscribed, cm) \<Rightarrow>
          (let object = ctx_wrap object0 in
           (Inr object,
            if subscribed
            then st\<lparr>contextMap := cm,
                    ctx_objectMap := store (c_id (target object)) object (ctx_objectMap st)\<rparr>
            else st\<lparr>contextMap := cm\<rparr>)))"

text \<open>
  The loop of \<open>#removeCallback\<close> over the slots of \<open>contextMap\<close>, with the flag \<open>supported\<close>.
\<close>

fun ctx_delete_loop :: "'p cobject \<Rightarrow> (label \<times> cslot) list \<Rightarrow> bool \<Rightarrow> (label \<times> cslot) list \<times> bool" where
  "ctx_delete_loop object [] supported = ([], supported)"
| "ctx_delete_loop object ((c, s) # rest) supported =
     (if c_id object \<in> set (ids s)
      then
        (if c \<in> set (labels_of object)
         then (case ctx_delete_loop object rest supported of
                 (rest', flag) \<Rightarrow> ((c, s\<lparr>ids := set_delete (c_id object) (ids s)\<rparr>) # rest', flag))
         else (case ctx_delete_loop object rest True of
                 (rest', flag) \<Rightarrow> ((c, s) # rest', flag)))
      else (case ctx_delete_loop object rest supported of
              (rest', flag) \<Rightarrow> ((c, s) # rest', flag)))"

text \<open>\<open>#removeCallback\<close>; it only reads the fields of its argument.\<close>

definition ctx_removeCallback :: "'p cobject \<Rightarrow> 'p cstate \<Rightarrow> 'p cstate" where
  "ctx_removeCallback object st =
     (case ctx_delete_loop object (contextMap st) False of
        (cm, supported) \<Rightarrow>
          if \<not> supported \<and> cached_in (c_id object) (ctx_objectMap st)
          then st\<lparr>contextMap := cm, ctx_objectMap := (ctx_objectMap st)(c_id object := None)\<rparr>
          else st\<lparr>contextMap := cm\<rparr>)"

text \<open>\<open>[...new Set(xs)]\<close>: the first occurrence of each element, in order.\<close>

definition dedupe :: "'a list \<Rightarrow> 'a list" where
  "dedupe xs = foldl (\<lambda>acc x. set_add x acc) [] xs"

text \<open>
  \<open>#post\<close>, for a plain object, in two parts: \<open>post_begin\<close> is the call itself (it returns
  the installed object, and whether the request was written), \<open>post_catch\<close> is the handler
  of a rejected request. \<open>post\<close> runs the handler right after the call when the request is
  rejected.
\<close>

definition post_begin ::
  "'p cobject \<Rightarrow> 'p cstate \<Rightarrow> (error + 'p cobject ref \<times> (error + unit)) \<times> 'p cstate" where
  "post_begin object0 st =
     (case ctx_updateCallback (Via 0 (object0\<lparr>c_context := dedupe (c_context object0)\<rparr>)) st of
        (Inl e, st1) \<Rightarrow> (Inl e, st1)
      | (Inr object, st1) \<Rightarrow>
          (case request (Update (ctx_snapshot (target object))) st1 of
             (written, st2) \<Rightarrow> (Inr (object, written), st2)))"

definition post_catch :: "'p cobject ref \<Rightarrow> 'p cstate \<Rightarrow> 'p cstate" where
  "post_catch object st = ctx_removeCallback (target object) st"

definition post :: "'p cobject \<Rightarrow> reply \<Rightarrow> 'p cstate \<Rightarrow> (error + 'p cobject ref) \<times> 'p cstate" where
  "post object0 r st =
     (case post_begin object0 st of
        (Inl e, st1) \<Rightarrow> (Inl e, st1)
      | (Inr (object, written), st1) \<Rightarrow>
          (case settle written r of
             Inr _ \<Rightarrow> (Inr object, st1)
           | Inl e \<Rightarrow> (Inr object, post_catch object st1)))"

text \<open>\<open>#remove\<close>, in the same two parts; it only reads the fields of its argument.\<close>

definition remove_begin :: "'p cobject \<Rightarrow> 'p cstate \<Rightarrow> ('p cobject \<times> (error + unit)) \<times> 'p cstate" where
  "remove_begin object st =
     (let originalObject = ctx_snapshot object in
      case request (Remove (c_id object)) (ctx_removeCallback object st) of
        (written, st2) \<Rightarrow> ((originalObject, written), st2))"

definition remove_catch :: "'p cobject \<Rightarrow> 'p cstate \<Rightarrow> 'p cstate" where
  "remove_catch originalObject st = snd (ctx_updateCallback (Via 0 originalObject) st)"

definition ctx_remove :: "'p cobject \<Rightarrow> reply \<Rightarrow> 'p cstate \<Rightarrow> 'p cstate" where
  "ctx_remove object r st =
     (case remove_begin object st of
        ((originalObject, written), st1) \<Rightarrow>
          (case settle written r of
             Inr _ \<Rightarrow> st1
           | Inl e \<Rightarrow> remove_catch originalObject st1))"

fun ctx_subscribe_loop :: "label list \<Rightarrow> (label \<times> cslot) list \<Rightarrow> label list \<Rightarrow> (label \<times> cslot) list \<times> label list" where
  "ctx_subscribe_loop [] cm subscribingContexts = (cm, subscribingContexts)"
| "ctx_subscribe_loop (c # cs) cm subscribingContexts =
     (if js_in c cm
      then ctx_subscribe_loop cs (modify c (\<lambda>s. s\<lparr>ctx_count := ctx_count s + 1\<rparr>) cm) subscribingContexts
      else ctx_subscribe_loop cs (cm @ [(c, \<lparr>ids = [], ctx_count = 1\<rparr>)]) (subscribingContexts @ [c]))"

definition ctx_subscribe :: "label option list \<Rightarrow> 'p cstate \<Rightarrow> 'p cstate" where
  "ctx_subscribe contexts0 st =
     (case ctx_subscribe_loop (non_null contexts0) (contextMap st) [] of
        (cm, subscribingContexts) \<Rightarrow>
          if subscribingContexts \<noteq> []
          then snd (request (Subscribe subscribingContexts) (st\<lparr>contextMap := cm\<rparr>))
          else st\<lparr>contextMap := cm\<rparr>)"

text \<open>
  The first loop of \<open>unsubscribe\<close>: every count goes down by one; on an inherited name
  without a slot of its own the prototype's value is counted on.
\<close>

fun decrement_loop :: "label list \<Rightarrow> (label \<times> cslot) list \<Rightarrow> (error + unit) \<times> (label \<times> cslot) list" where
  "decrement_loop [] cm = (Inr (), cm)"
| "decrement_loop (c # cs) cm =
     (if \<not> js_in c cm then (Inl TypeError, cm)
      else decrement_loop cs (modify c (\<lambda>s. s\<lparr>ctx_count := ctx_count s - 1\<rparr>) cm))"

text \<open>
  The inner loop over the ids of a context that is going away. \<open>keysLeft\<close> counts the
  object's contexts, other than this one, that have a slot; the entry is deleted when
  \<open>keysLeft\<close> is not zero. Reading \<open>.context\<close> of an id that has no entry is a TypeError.
\<close>

definition keysLeft :: "label \<Rightarrow> label list \<Rightarrow> 'p cobject \<Rightarrow> nat" where
  "keysLeft c ks object =
     foldl (\<lambda>a c'. a + (if c' \<noteq> c \<and> c' \<in> set ks then 1 else 0)) 0 (c_context object)"

fun evict_loop ::
  "label \<Rightarrow> label list \<Rightarrow> ident list \<Rightarrow> (ident \<rightharpoonup> 'p cobject ref) \<Rightarrow>
   (error + unit) \<times> (ident \<rightharpoonup> 'p cobject ref)" where
  "evict_loop c ks [] om = (Inr (), om)"
| "evict_loop c ks (i # is) om =
     (case om i of
        None \<Rightarrow> (Inl TypeError, om)
      | Some object \<Rightarrow>
          evict_loop c ks is (if keysLeft c ks (target object) \<noteq> 0 then om(i := None) else om))"

text \<open>
  The second loop of \<open>unsubscribe\<close>, with the list \<open>unsubscribingContexts\<close>. A context that
  is not \<open>in\<close> the dictionary is a TypeError at \<open>.count\<close>; an inherited name without a slot
  of its own has the count \<open>NaN\<close> and no \<open>ids\<close> to iterate, a TypeError as well.
\<close>

fun purge_loop ::
  "label list \<Rightarrow> (label \<times> cslot) list \<Rightarrow> (ident \<rightharpoonup> 'p cobject ref) \<Rightarrow> label list \<Rightarrow>
   (error + label list) \<times> (label \<times> cslot) list \<times> (ident \<rightharpoonup> 'p cobject ref)" where
  "purge_loop [] cm om unsubscribingContexts = (Inr unsubscribingContexts, cm, om)"
| "purge_loop (c # cs) cm om unsubscribingContexts =
     (case map_of cm c of
        None \<Rightarrow> (Inl TypeError, cm, om)
      | Some s \<Rightarrow>
          if ctx_count s \<noteq> 0 then purge_loop cs cm om unsubscribingContexts
          else
            (case evict_loop c (keys cm) (ids s) om of
               (Inl e, om') \<Rightarrow> (Inl e, cm, om')
             | (Inr _, om') \<Rightarrow> purge_loop cs (remove_key c cm) om' (unsubscribingContexts @ [c])))"

definition ctx_unsubscribe :: "label option list \<Rightarrow> 'p cstate \<Rightarrow> (error + unit) \<times> 'p cstate" where
  "ctx_unsubscribe contexts0 st =
     (let contexts = non_null contexts0 in
      case decrement_loop contexts (contextMap st) of
        (Inl e, cm) \<Rightarrow> (Inl e, st\<lparr>contextMap := cm\<rparr>)
      | (Inr _, cm) \<Rightarrow>
          (case purge_loop contexts cm (ctx_objectMap st) [] of
             (Inl e, cm', om') \<Rightarrow> (Inl e, st\<lparr>contextMap := cm', ctx_objectMap := om'\<rparr>)
           | (Inr unsubscribingContexts, cm', om') \<Rightarrow>
               if unsubscribingContexts \<noteq> []
               then (Inr (), snd (request (Unsubscribe unsubscribingContexts)
                                    (st\<lparr>contextMap := cm', ctx_objectMap := om'\<rparr>)))
               else (Inr (), st\<lparr>contextMap := cm', ctx_objectMap := om'\<rparr>)))"

definition ctx_onOpen :: "'p cstate \<Rightarrow> (error + unit) \<times> 'p cstate" where
  "ctx_onOpen st =
     (let st1 = st\<lparr>is_open := True\<rparr>;
          st2 = st1\<lparr>contextMap := map (\<lambda>(c, s). (c, s\<lparr>ids := []\<rparr>)) (contextMap st1)\<rparr>;
          st3 = st2\<lparr>ctx_objectMap := Map.empty\<rparr>;
          contexts = keys (contextMap st3)
      in if contexts \<noteq> [] then request (Subscribe contexts) st3 else (Inr (), st3))"

definition ctx_onClose :: "'p cstate \<Rightarrow> 'p cstate" where
  "ctx_onClose st = st\<lparr>is_open := False\<rparr>"

definition myContexts :: "'p cstate \<Rightarrow> (error + unit) \<times> 'p cstate" where
  "myContexts st = request Ls st"

subsection \<open>Objects as they arrive\<close>

text \<open>
  An object as \<open>JSON.parse\<close> or a caller delivers it: no \<open>_id\<close> and no marker.
\<close>

definition plain :: "string \<Rightarrow> string \<Rightarrow> label list \<Rightarrow> 'p \<Rightarrow> 'p tobject" where
  "plain b k tags p =
     \<lparr>t_by = Some b, t_key = Some k, t_tags = tags, t_id = NoId, t_payload = p\<rparr>"

definition ctx_plain :: "ident \<Rightarrow> label list \<Rightarrow> 'p \<Rightarrow> 'p cobject" where
  "ctx_plain i cs p =
     \<lparr>c_id = i, c_context = cs, c_payload = p, marker = False\<rparr>"

section \<open>Properties\<close>


subsection \<open>Dictionaries, sets and the loops\<close>

lemma keys_modify [simp]: "keys (modify k f m) = keys m"
  by (induction m) (auto simp: keys_def modify_def)

lemma has_key_modify [simp]: "has_key k' (modify k f m) = has_key k' m"
  by (simp add: has_key_def)

lemma js_in_modify [simp]: "js_in k' (modify k f m) = js_in k' m"
  by (simp add: js_in_def)

lemma js_in_ordinary: "\<not> inherited k \<Longrightarrow> js_in k m = has_key k m"
  by (simp add: js_in_def)

lemma has_key_map_of: "has_key k m \<longleftrightarrow> map_of m k \<noteq> None"
  by (induction m) (auto simp: has_key_def keys_def)

lemma map_of_modify:
  "map_of (modify k f m) k' = (if k' = k then map_option f (map_of m k) else map_of m k')"
  by (induction m) (auto simp: modify_def)

lemma modify_absent: "\<not> has_key k m \<Longrightarrow> modify k f m = m"
  by (induction m) (auto simp: modify_def has_key_def keys_def)

lemma map_of_remove_key:
  "map_of (remove_key k m) k' = (if k' = k then None else map_of m k')"
  by (induction m) (auto simp: remove_key_def)

lemma keys_remove_key: "keys (remove_key k m) = removeAll k (keys m)"
  by (induction m) (auto simp: remove_key_def keys_def)

lemma set_add_idem [simp]: "set_add x (set_add x xs) = set_add x xs"
  by (simp add: set_add_def)

lemma set_set_add [simp]: "set (set_add x xs) = insert x (set xs)"
  by (auto simp: set_add_def)

lemma set_delete_add: "x \<notin> set xs \<Longrightarrow> set_delete x (set_add x xs) = xs"
  by (simp add: set_add_def set_delete_def)

lemma set_add_member: "x \<in> set xs \<Longrightarrow> set_add x xs = xs"
  by (simp add: set_add_def)

lemma map_of_map_entries:
  "map_of (map (\<lambda>(t, s). (t, g t s)) tm) t = map_option (g t) (map_of tm t)"
  by (induction tm) auto

lemma keys_map_entries [simp]: "keys (map (\<lambda>(t, s). (t, g t s)) tm) = keys tm"
  by (induction tm) (auto simp: keys_def)

lemma map_entries_id:
  "(\<And>t s. (t, s) \<in> set tm \<Longrightarrow> g t s = s) \<Longrightarrow> map (\<lambda>(t, s). (t, g t s)) tm = tm"
  by (induction tm) auto

lemma has_key_entry: "(t, s) \<in> set tm \<Longrightarrow> has_key t tm"
  by (force simp: has_key_def keys_def)

lemma not_inherited_proto: "\<not> inherited u \<Longrightarrow> u \<noteq> ''__proto__''"
  by (auto simp: inherited_def inherited_names_def)

lemma store_ordinary: "\<not> inherited u \<Longrightarrow> store u v om = om(u \<mapsto> v)"
  by (simp add: store_def not_inherited_proto)

lemma cached_in_ordinary: "\<not> inherited u \<Longrightarrow> cached_in u om \<longleftrightarrow> om u \<noteq> None"
  by (simp add: cached_in_def)

text \<open>
  The loops of the two callbacks of the tag variant, in closed form, for tags that are
  not inherited names.
\<close>

lemma add_loop_eq:
  "\<forall>t \<in> set tags. \<not> inherited t \<Longrightarrow>
   add_loop u tags tm b =
     (Inr (b \<or> (\<exists>t \<in> set tags. has_key t tm)),
      map (\<lambda>(t, s). (t, if t \<in> set tags then s\<lparr>uuids := set_add u (uuids s)\<rparr> else s)) tm)"
proof (induction tags arbitrary: tm b)
  case Nil
  show ?case by (simp add: case_prod_unfold)
next
  case (Cons tag tags)
  then have ord: "\<not> inherited tag" and rest: "\<forall>t \<in> set tags. \<not> inherited t" by auto
  show ?case
  proof (cases "has_key tag tm")
    case False
    then have "\<And>t s. (t, s) \<in> set tm \<Longrightarrow> t \<noteq> tag"
      by (force simp: has_key_def keys_def)
    then show ?thesis using False ord Cons.IH [OF rest, of tm b]
      by (auto simp: js_in_def intro!: map_cong)
  next
    case True
    show ?thesis
      using True ord Cons.IH [OF rest, of "modify tag (\<lambda>s. s\<lparr>uuids := set_add u (uuids s)\<rparr>) tm" True]
      by (auto simp: js_in_def modify_def intro!: map_cong)
  qed
qed

lemma delete_loop_eq:
  "\<forall>t \<in> set tags. \<not> inherited t \<Longrightarrow>
   delete_loop u tags tm =
     (Inr (),
      map (\<lambda>(t, s). (t, if t \<in> set tags then s\<lparr>uuids := set_delete u (uuids s)\<rparr> else s)) tm)"
proof (induction tags arbitrary: tm)
  case Nil
  show ?case by (simp add: case_prod_unfold)
next
  case (Cons tag tags)
  then have ord: "\<not> inherited tag" and rest: "\<forall>t \<in> set tags. \<not> inherited t" by auto
  show ?case
  proof (cases "has_key tag tm")
    case False
    then have "\<And>t s. (t, s) \<in> set tm \<Longrightarrow> t \<noteq> tag"
      by (force simp: has_key_def keys_def)
    then show ?thesis using False ord Cons.IH [OF rest, of tm]
      by (auto simp: js_in_def intro!: map_cong)
  next
    case True
    show ?thesis
      using True ord Cons.IH [OF rest, of "modify tag (\<lambda>s. s\<lparr>uuids := set_delete u (uuids s)\<rparr>) tm"]
      by (auto simp: js_in_def modify_def set_delete_def intro!: map_cong)
  qed
qed

lemma ctx_add_loop_eq:
  "\<forall>c \<in> set cs. \<not> inherited c \<Longrightarrow>
   ctx_add_loop i cs cm b =
     (Inr (b \<or> (\<exists>c \<in> set cs. has_key c cm)),
      map (\<lambda>(c, s). (c, if c \<in> set cs then s\<lparr>ids := set_add i (ids s)\<rparr> else s)) cm)"
proof (induction cs arbitrary: cm b)
  case Nil
  show ?case by (simp add: case_prod_unfold)
next
  case (Cons c cs)
  then have ord: "\<not> inherited c" and rest: "\<forall>c \<in> set cs. \<not> inherited c" by auto
  show ?case
  proof (cases "has_key c cm")
    case False
    then have "\<And>t s. (t, s) \<in> set cm \<Longrightarrow> t \<noteq> c"
      by (force simp: has_key_def keys_def)
    then show ?thesis using False ord Cons.IH [OF rest, of cm b]
      by (auto simp: js_in_def intro!: map_cong)
  next
    case True
    show ?thesis
      using True ord Cons.IH [OF rest, of "modify c (\<lambda>s. s\<lparr>ids := set_add i (ids s)\<rparr>) cm" True]
      by (auto simp: js_in_def modify_def intro!: map_cong)
  qed
qed

text \<open>The loops change nothing but the sets: keys and counts stay.\<close>

lemma add_loop_keys [simp]: "keys (snd (add_loop u tags tm b)) = keys tm"
  by (induction tags arbitrary: tm b) auto

lemma delete_loop_keys [simp]: "keys (snd (delete_loop u tags tm)) = keys tm"
  by (induction tags arbitrary: tm) auto

lemma ctx_add_loop_keys [simp]: "keys (snd (ctx_add_loop i cs cm b)) = keys cm"
  by (induction cs arbitrary: cm b) auto


subsection \<open>The callbacks in closed form\<close>

lemma define_id_ok:
  "\<forall>v. t_id object = FixedId v \<longrightarrow> v = u \<Longrightarrow> define_id u object = Inr (with_id u object)"
  by (auto simp: define_id_def with_id_def split: id_prop.splits)

lemma with_id_fields [simp]:
  "t_by (with_id u object) = t_by object"
  "t_key (with_id u object) = t_key object"
  "t_tags (with_id u object) = t_tags object"
  "t_payload (with_id u object) = t_payload object"
  by (simp_all add: with_id_def split: id_prop.splits)

lemma snapshot_fields [simp]:
  "t_by (snapshot object) = t_by object"
  "t_key (snapshot object) = t_key object"
  "t_tags (snapshot object) = t_tags object"
  "t_payload (snapshot object) = t_payload object"
  "objectUUID (snapshot object) = objectUUID object"
  by (auto simp: snapshot_def objectUUID_def split: id_prop.splits option.splits)

lemma snapshot_not_fixed: "t_id (snapshot object) \<noteq> FixedId v"
  by (simp add: snapshot_def split: id_prop.splits)

lemma snapshot_with_id: "t_id object = NoId \<Longrightarrow> snapshot (with_id u object) = object"
  by (simp add: snapshot_def with_id_def)

lemma updateCallback_eq:
  assumes "objectUUID (target object) = Inr u"
    and "\<forall>t \<in> set (t_tags (target object)). \<not> inherited t"
    and "\<not> inherited u"
    and "\<forall>v. t_id (target object) = FixedId v \<longrightarrow> v = u"
  shows "updateCallback object st =
    (if \<exists>t \<in> set (t_tags (target object)). has_key t (tagMap st)
     then (Inr (case objectMap st u of
                  Some entry \<Rightarrow> Original (snapshot (target entry))
                | None \<Rightarrow> NoOriginal,
                Via (proxies object) (with_id u (target object))),
           st\<lparr>tagMap := map (\<lambda>(t, s). (t, if t \<in> set (t_tags (target object))
                                then s\<lparr>uuids := set_add u (uuids s)\<rparr> else s)) (tagMap st),
              objectMap := (objectMap st)(u \<mapsto> wrap (Via (proxies object) (with_id u (target object))))\<rparr>)
     else (Inr (NoOriginal, object), st))"
proof (cases "\<exists>t \<in> set (t_tags (target object)). has_key t (tagMap st)")
  case True
  then show ?thesis using assms
    by (auto simp: updateCallback_def add_loop_eq define_id_ok store_ordinary cached_in_ordinary
        split: option.splits)
next
  case False
  then have "map (\<lambda>(t, s). (t, if t \<in> set (t_tags (target object))
                then s\<lparr>uuids := set_add u (uuids s)\<rparr> else s)) (tagMap st) = tagMap st"
    by (intro map_entries_id) (auto dest: has_key_entry)
  then show ?thesis using assms False by (simp add: updateCallback_def add_loop_eq)
qed

lemma updateCallback_throws:
  "objectUUID (target object) = Inl e \<Longrightarrow> updateCallback object st = (Inl e, st)"
  by (simp add: updateCallback_def)

lemma removeCallback_eq:
  assumes "objectUUID object = Inr u" and "\<forall>t \<in> set (t_tags object). \<not> inherited t"
  shows "removeCallback object st =
     (Inr (),
      st\<lparr>tagMap := map (\<lambda>(t, s). (t, if t \<in> set (t_tags object)
                           then s\<lparr>uuids := set_delete u (uuids s)\<rparr> else s)) (tagMap st),
         objectMap := (objectMap st)(u := None)\<rparr>)"
proof -
  have "\<not> cached_in u (objectMap st) \<Longrightarrow> (objectMap st)(u := None) = objectMap st"
    by (simp add: cached_in_def fun_upd_idem)
  then show ?thesis using assms
    by (auto simp: removeCallback_def delete_loop_eq)
qed

lemma removeCallback_throws:
  "objectUUID object = Inl e \<Longrightarrow> removeCallback object st = (Inl e, st)"
  by (simp add: removeCallback_def)

lemma target_ctx_wrap [simp]:
  "c_id (target (ctx_wrap object)) = c_id (target object)"
  "c_context (target (ctx_wrap object)) = c_context (target object)"
  "labels_of (target (ctx_wrap object)) = labels_of (target object)"
  "marker (target (ctx_wrap object))"
  by (simp_all add: ctx_wrap_def wrap_def labels_of_def)

lemma ctx_updateCallback_eq:
  assumes "\<forall>c \<in> set (labels_of (target object)). \<not> inherited c"
  shows "ctx_updateCallback object st =
    (Inr (ctx_wrap object),
     if \<exists>c \<in> set (labels_of (target object)). has_key c (contextMap st)
     then st\<lparr>contextMap := map (\<lambda>(c, s). (c, if c \<in> set (labels_of (target object))
                                then s\<lparr>ids := set_add (c_id (target object)) (ids s)\<rparr> else s))
                              (contextMap st),
             ctx_objectMap := (ctx_objectMap st)(c_id (target object) \<mapsto> ctx_wrap object)\<rparr>
     else st)"
proof -
  have id: "\<not> inherited (c_id (target object))"
    using assms by (simp add: labels_of_def)
  show ?thesis
  proof (cases "\<exists>c \<in> set (labels_of (target object)). has_key c (contextMap st)")
    case True
    then show ?thesis using assms
      by (simp add: ctx_updateCallback_def ctx_add_loop_eq Let_def store_ordinary [OF id])
  next
    case False
    then have "map (\<lambda>(c, s). (c, if c \<in> set (labels_of (target object))
                  then s\<lparr>ids := set_add (c_id (target object)) (ids s)\<rparr> else s)) (contextMap st)
                = contextMap st"
      by (intro map_entries_id) (auto dest: has_key_entry)
    then show ?thesis using assms False
      by (simp add: ctx_updateCallback_def ctx_add_loop_eq Let_def)
  qed
qed

lemma ctx_delete_loop_eq:
  "ctx_delete_loop object cm b =
     (map (\<lambda>(c, s). (c, if c \<in> set (labels_of object)
                         then s\<lparr>ids := set_delete (c_id object) (ids s)\<rparr> else s)) cm,
      b \<or> (\<exists>(c, s) \<in> set cm. c_id object \<in> set (ids s) \<and> c \<notin> set (labels_of object)))"
  by (induction cm arbitrary: b) (auto simp: set_delete_def split: prod.splits)

lemma listed_after_delete:
  "(\<exists>(c, s) \<in> set (map (\<lambda>(c, s). (c, if c \<in> L then s\<lparr>ids := set_delete i (ids s)\<rparr> else s)) cm).
       i \<in> set (ids s))
   \<longleftrightarrow> (\<exists>(c, s) \<in> set cm. i \<in> set (ids s) \<and> c \<notin> L)"
  by (induction cm) (auto simp: set_delete_def split: if_splits)

lemma ctx_removeCallback_eq:
  "ctx_removeCallback object st =
     (let cm = map (\<lambda>(c, s). (c, if c \<in> set (labels_of object)
                         then s\<lparr>ids := set_delete (c_id object) (ids s)\<rparr> else s)) (contextMap st)
      in if \<exists>(c, s) \<in> set cm. c_id object \<in> set (ids s)
         then st\<lparr>contextMap := cm\<rparr>
         else st\<lparr>contextMap := cm, ctx_objectMap := (ctx_objectMap st)(c_id object := None)\<rparr>)"
proof -
  have "\<not> cached_in (c_id object) (ctx_objectMap st) \<Longrightarrow>
          (ctx_objectMap st)(c_id object := None) = ctx_objectMap st"
    by (simp add: cached_in_def fun_upd_idem)
  then show ?thesis
    unfolding Let_def listed_after_delete
    by (auto simp: ctx_removeCallback_def ctx_delete_loop_eq)
qed

subsection \<open>What the operations do to the connection\<close>

lemma updateCallback_conn [simp]:
  "is_open (snd (updateCallback object st)) = is_open st"
  "sent (snd (updateCallback object st)) = sent st"
  "requests (snd (updateCallback object st)) = requests st"
  by (auto simp: updateCallback_def Let_def split: sum.splits prod.splits)

lemma removeCallback_conn [simp]:
  "is_open (snd (removeCallback object st)) = is_open st"
  "sent (snd (removeCallback object st)) = sent st"
  "requests (snd (removeCallback object st)) = requests st"
  by (auto simp: removeCallback_def split: sum.splits prod.splits)

lemma ctx_updateCallback_conn [simp]:
  "is_open (snd (ctx_updateCallback object st)) = is_open st"
  "sent (snd (ctx_updateCallback object st)) = sent st"
  "requests (snd (ctx_updateCallback object st)) = requests st"
  by (auto simp: ctx_updateCallback_def Let_def split: prod.splits sum.splits)

lemma ctx_removeCallback_conn [simp]:
  "is_open (ctx_removeCallback object st) = is_open st"
  "sent (ctx_removeCallback object st) = sent st"
  "requests (ctx_removeCallback object st) = requests st"
  by (auto simp: ctx_removeCallback_def split: prod.splits)

lemma request_closed:
  "\<not> is_open st \<Longrightarrow> request msg st = (Inl NotConnected, st\<lparr>requests := requests st @ [msg]\<rparr>)"
  by (simp add: request_def Let_def)

lemma request_conn [simp]:
  "is_open (snd (request msg st)) = is_open st"
  "requests (snd (request msg st)) = requests st @ [msg]"
  "sent (snd (request msg st)) = (if is_open st then sent st @ [msg] else sent st)"
  by (auto simp: request_def Let_def)

lemma settle_closed [simp]: "settle (Inl e) r = Inl e"
  by (simp add: settle_def)

lemma updateCallbackD:
  "updateCallback object st = (r, st') \<Longrightarrow>
     is_open st' = is_open st \<and> sent st' = sent st \<and> requests st' = requests st"
  using updateCallback_conn [of object st] by simp

lemma removeCallbackD:
  "removeCallback object st = (r, st') \<Longrightarrow>
     is_open st' = is_open st \<and> sent st' = sent st \<and> requests st' = requests st"
  using removeCallback_conn [of object st] by simp

lemma ctx_updateCallbackD:
  "ctx_updateCallback object st = (r, st') \<Longrightarrow>
     is_open st' = is_open st \<and> sent st' = sent st \<and> requests st' = requests st"
  using ctx_updateCallback_conn [of object st] by simp

lemma requestD:
  "request msg st = (r, st') \<Longrightarrow>
     is_open st' = is_open st \<and> requests st' = requests st @ [msg] \<and>
     sent st' = (if is_open st then sent st @ [msg] else sent st) \<and>
     r = (if is_open st then Inr () else Inl NotConnected)"
  by (auto simp: request_def Let_def)

subsection \<open>Requests while the connection is closed\<close>

lemma update_begin_conn:
  "is_open (snd (update_begin object fresh st)) = is_open st"
  "\<not> is_open st \<Longrightarrow> sent (snd (update_begin object fresh st)) = sent st"
  by (auto simp: update_begin_def Let_def split: prod.splits sum.splits
      dest!: updateCallbackD requestD)

lemma update_begin_written:
  "\<not> is_open st \<Longrightarrow> update_begin object fresh st = (Inr (ob, orig, written), st1)
    \<Longrightarrow> written = Inl NotConnected"
  by (auto simp: update_begin_def Let_def split: prod.splits sum.splits
      dest!: updateCallbackD requestD)

lemma update_catch_conn [simp]:
  "is_open (snd (update_catch e object orig st)) = is_open st"
  "sent (snd (update_catch e object orig st)) = sent st"
  "isl (fst (update_catch e object orig st))"
  by (auto simp: update_catch_def split: prod.splits sum.splits original.splits
      dest!: updateCallbackD removeCallbackD)

lemma update_closed:
  "\<not> is_open st \<Longrightarrow>
     sent (snd (update object fresh r st)) = sent st \<and> isl (fst (update object fresh r st))"
  using update_begin_conn [where object = object and fresh = fresh and st = st]
  by (auto simp: update_def split: prod.splits sum.splits dest: update_begin_written)

lemma deleteObject_closed:
  "\<not> is_open st \<Longrightarrow> sent (snd (deleteObject object r st)) = sent st"
  by (auto simp: deleteObject_def deleteObject_begin_def deleteObject_catch_def Let_def
      split: prod.splits sum.splits bool.splits if_splits dest!: requestD)

lemma subscribe_closed:
  "\<not> is_open st \<Longrightarrow> sent (subscribe tags st) = sent st"
  by (auto simp: subscribe_def split: prod.splits)

lemma unsubscribe_closed:
  "\<not> is_open st \<Longrightarrow> sent (snd (unsubscribe tags st)) = sent st"
  by (auto simp: unsubscribe_def split: prod.splits sum.splits)

lemma post_closed:
  "\<not> is_open st \<Longrightarrow> sent (snd (post object r st)) = sent st"
  by (auto simp: post_def post_begin_def post_catch_def
      split: prod.splits sum.splits dest!: requestD ctx_updateCallbackD)

lemma ctx_remove_closed:
  "\<not> is_open st \<Longrightarrow> sent (ctx_remove object r st) = sent st"
  by (auto simp: ctx_remove_def remove_begin_def remove_catch_def Let_def
      split: prod.splits sum.splits dest!: requestD)

lemma ctx_subscribe_closed:
  "\<not> is_open st \<Longrightarrow> sent (ctx_subscribe tags st) = sent st"
  by (auto simp: ctx_subscribe_def split: prod.splits)

lemma ctx_unsubscribe_closed:
  "\<not> is_open st \<Longrightarrow> sent (snd (ctx_unsubscribe tags st)) = sent st"
  by (auto simp: ctx_unsubscribe_def Let_def split: prod.splits sum.splits)

text \<open>
  Claim C8. While the connection is not open, \<open>#request\<close> throws at once and writes
  nothing to the channel, in both editions, and its promise is rejected whatever the
  server would have answered. So the operations that make a request (\<open>update\<close>, the
  deletion of an object, \<open>subscribe\<close>, \<open>unsubscribe\<close>, \<open>myTags\<close>, and in the context variant
  \<open>#post\<close>, \<open>#remove\<close>, \<open>subscribe\<close>, \<open>unsubscribe\<close>, \<open>myContexts\<close>) leave \<open>sent\<close> as it was
  when they are over, handlers included: nothing is written and nothing is retried.
  \<open>update\<close>, \<open>myTags\<close> and \<open>myContexts\<close> end with the error.
\<close>

theorem request_while_closed:
  fixes st :: "'p tstate" and cst :: "'q cstate"
  assumes "\<not> is_open st" and "\<not> is_open cst"
  shows "request m st = (Inl NotConnected, st\<lparr>requests := requests st @ [m]\<rparr>)
    \<and> request cm cst = (Inl NotConnected, cst\<lparr>requests := requests cst @ [cm]\<rparr>)
    \<and> settle (Inl NotConnected) r = Inl NotConnected
    \<and> isl (fst (update object fresh r st)) \<and> sent (snd (update object fresh r st)) = sent st
    \<and> sent (snd (deleteObject object r st)) = sent st
    \<and> sent (subscribe tags st) = sent st
    \<and> sent (snd (unsubscribe tags st)) = sent st
    \<and> myTags st = (Inl NotConnected, st\<lparr>requests := requests st @ [Ls]\<rparr>)
    \<and> sent (snd (post cobject r cst)) = sent cst
    \<and> sent (ctx_remove cobject r cst) = sent cst
    \<and> sent (ctx_subscribe tags cst) = sent cst
    \<and> sent (snd (ctx_unsubscribe tags cst)) = sent cst
    \<and> myContexts cst = (Inl NotConnected, cst\<lparr>requests := requests cst @ [Ls]\<rparr>)"
  using assms
  by (simp add: request_closed update_closed deleteObject_closed subscribe_closed
      unsubscribe_closed post_closed ctx_remove_closed ctx_subscribe_closed
      ctx_unsubscribe_closed myTags_def myContexts_def)

theorem request_while_closed_witness:
  "\<not> is_open (initial None :: unit tstate)
   \<and> \<not> is_open (ctx_initial :: unit cstate)
   \<and> request Ls (initial None :: unit tstate) = (Inl NotConnected, (initial None)\<lparr>requests := [Ls]\<rparr>)
   \<and> sent (subscribe [Some ''a''] (initial None :: unit tstate)) = []
   \<and> sent (snd (update \<lparr>t_by = None, t_key = Some ''k'', t_tags = [''a''], t_id = NoId,
                          t_payload = ()\<rparr> ''f'' Reply (initial (Some ''me'')))) = []
   \<and> sent (snd (post \<lparr>c_id = ''i'', c_context = [''a''], c_payload = (), marker = False\<rparr>
                   Reply ctx_initial)) = []"
  using request_while_closed [of "initial None :: unit tstate" "ctx_initial :: unit cstate" Ls Ls Reply
      "\<lparr>t_by = None, t_key = Some ''k'', t_tags = [''a''], t_id = NoId, t_payload = ()\<rparr>"
      "''f''" "[Some ''a'']"
      "\<lparr>c_id = ''i'', c_context = [''a''], c_payload = (), marker = False\<rparr>"]
    request_while_closed [of "initial (Some ''me'') :: unit tstate" "ctx_initial :: unit cstate" Ls Ls Reply
      "\<lparr>t_by = None, t_key = Some ''k'', t_tags = [''a''], t_id = NoId, t_payload = ()\<rparr>"
      "''f''" "[Some ''a'']"
      "\<lparr>c_id = ''i'', c_context = [''a''], c_payload = (), marker = False\<rparr>"]
  by (simp add: initial_def ctx_initial_def)

subsection \<open>Inbound pushes\<close>

text \<open>The definitions unfolded to run the operations on concrete inputs.\<close>

lemmas run_defs =
  request_def settle_def has_key_def keys_def modify_def remove_key_def set_add_def
  set_delete_def Let_def inherited_def inherited_names_def js_in_def cached_in_def store_def
  wrap_def

lemmas tag_defs =
  initial_def subscribe_def unsubscribe_def updateCallback_def removeCallback_def objectUUID_def
  with_id_def define_id_def snapshot_def stamp_def falsy_def onOpen_def onClose_def
  update_def update_begin_def update_catch_def plain_def

lemmas ctx_defs =
  ctx_initial_def ctx_subscribe_def ctx_unsubscribe_def ctx_updateCallback_def
  ctx_removeCallback_def labels_of_def ctx_wrap_def ctx_snapshot_def
  dedupe_def post_def post_begin_def post_catch_def keysLeft_def
  ctx_onOpen_def ctx_onClose_def ctx_plain_def

text \<open>
  Claim C4 asks that a push with a subscribed label adds the identifier to the set of
  every matching label and installs the object. For labels that are not inherited names
  that is what \<open>#updateCallback\<close> does (\<open>updateCallback_eq\<close>, \<open>ctx_updateCallback_eq\<close>). A push
  whose labels include the inherited name \<open>constructor\<close> diverges, in both editions: with
  \<open>a\<close> subscribed, the identifier is added to the set of \<open>a\<close>, then the loop throws a
  TypeError at \<open>constructor\<close>, and the object is not installed in the cache.
\<close>

theorem inbound_update_inherited_label:
  "(let st = subscribe [Some ''a''] (initial None :: unit tstate);
        pushed = updateCallback (Via 0 (plain ''u'' ''k'' [''a'', ''constructor''] ())) st
    in tagMap st = [(''a'', \<lparr>uuids = [], count = 1\<rparr>)]
     \<and> fst pushed = Inl TypeError
     \<and> tagMap (snd pushed) = [(''a'', \<lparr>uuids = [''uk''], count = 1\<rparr>)]
     \<and> objectMap (snd pushed) ''uk'' = None)
   \<and> (let cst = ctx_subscribe [Some ''a''] (ctx_initial :: unit cstate);
        pushed = ctx_updateCallback (Via 0 (ctx_plain ''o'' [''a'', ''constructor''] ())) cst
    in contextMap cst = [(''a'', \<lparr>ids = [], ctx_count = 1\<rparr>)]
     \<and> fst pushed = Inl TypeError
     \<and> contextMap (snd pushed) = [(''a'', \<lparr>ids = [''o''], ctx_count = 1\<rparr>)]
     \<and> ctx_objectMap (snd pushed) ''o'' = None)"
  by (simp add: run_defs tag_defs ctx_defs)





subsection \<open>Wrapping\<close>

lemma ctx_wrap_unmarked:
  "\<not> marker (target object) \<Longrightarrow>
     ctx_wrap object = Via (Suc (proxies object)) ((target object)\<lparr>marker := True\<rparr>)"
  by (simp add: ctx_wrap_def wrap_def)

lemma ctx_wrap_marked: "marker (target object) \<Longrightarrow> ctx_wrap object = object"
  by (simp add: ctx_wrap_def)

lemma ctx_wrap_idem [simp]: "ctx_wrap (ctx_wrap object) = ctx_wrap object"
  by (simp add: ctx_wrap_def wrap_def)

lemma ctx_wrap_proxied:
  "marker (target object) \<longrightarrow> 0 < proxies object \<Longrightarrow> 0 < proxies (ctx_wrap object)"
  by (simp add: ctx_wrap_def wrap_def)

text \<open>
  Claim C7, as the code has it. In the context variant \<open>#updateCallback\<close> puts an object
  that has no marker behind one more proxy and marks it, and hands back a marked object
  that is behind a proxy as it is. So for an object that is unmarked, or marked and behind
  a proxy, the step is idempotent: what \<open>#updateCallback\<close> returns is behind a proxy, can be
  processed again without another proxy, and the cache holds that same entry after the
  second processing (the labels not being inherited names). In the tag variant there is no
  marker: every install stores the object it was given behind one more proxy (for an
  object whose tags and identifier are not inherited names and whose \<open>_id\<close>, if fixed, is
  the identifier).
\<close>

theorem wrapping:
  fixes st :: "'p tstate" and cst cst' :: "'q cstate"
  shows
   "(\<not> marker (target cobject) \<longrightarrow>
       ctx_wrap cobject = Via (Suc (proxies cobject)) ((target cobject)\<lparr>marker := True\<rparr>))
  \<and> (marker (target cobject) \<and> 0 < proxies cobject \<longrightarrow> ctx_wrap cobject = cobject)
  \<and> ((marker (target cobject) \<longrightarrow> 0 < proxies cobject) \<longrightarrow>
       ctx_wrap (ctx_wrap cobject) = ctx_wrap cobject
     \<and> 0 < proxies (ctx_wrap cobject) \<and> marker (target (ctx_wrap cobject)))
  \<and> ((marker (target cobject) \<longrightarrow> 0 < proxies cobject)
      \<and> (\<forall>c \<in> set (labels_of (target cobject)). \<not> inherited c) \<longrightarrow>
       fst (ctx_updateCallback cobject cst) = Inr (ctx_wrap cobject)
     \<and> fst (ctx_updateCallback (ctx_wrap cobject) cst') = Inr (ctx_wrap cobject)
     \<and> ((\<exists>c \<in> set (labels_of (target cobject)). has_key c (contextMap cst)) \<longrightarrow>
          ctx_objectMap (snd (ctx_updateCallback cobject cst)) (c_id (target cobject))
            = Some (ctx_wrap cobject)
        \<and> ctx_objectMap (snd (ctx_updateCallback (ctx_wrap cobject)
                                 (snd (ctx_updateCallback cobject cst)))) (c_id (target cobject))
            = Some (ctx_wrap cobject)))
  \<and> (objectUUID (target object) = Inr u
      \<and> (\<exists>t \<in> set (t_tags (target object)). has_key t (tagMap st))
      \<and> (\<forall>t \<in> set (t_tags (target object)). \<not> inherited t) \<and> \<not> inherited u
      \<and> (\<forall>v. t_id (target object) = FixedId v \<longrightarrow> v = u) \<longrightarrow>
       objectMap (snd (updateCallback object st)) u
         = Some (Via (Suc (proxies object)) (with_id u (target object))))"
proof (intro conjI impI)
  assume h: "(marker (target cobject) \<longrightarrow> 0 < proxies cobject)
      \<and> (\<forall>c \<in> set (labels_of (target cobject)). \<not> inherited c)"
  then have l: "\<forall>c \<in> set (labels_of (target (ctx_wrap cobject))). \<not> inherited c" by simp
  show "fst (ctx_updateCallback cobject cst) = Inr (ctx_wrap cobject)"
    using h by (simp add: ctx_updateCallback_eq)
  show "fst (ctx_updateCallback (ctx_wrap cobject) cst') = Inr (ctx_wrap cobject)"
    using l by (simp add: ctx_updateCallback_eq)
  assume s: "\<exists>c \<in> set (labels_of (target cobject)). has_key c (contextMap cst)"
  show "ctx_objectMap (snd (ctx_updateCallback cobject cst)) (c_id (target cobject))
            = Some (ctx_wrap cobject)"
    using h s by (simp add: ctx_updateCallback_eq)
  show "ctx_objectMap (snd (ctx_updateCallback (ctx_wrap cobject)
                                 (snd (ctx_updateCallback cobject cst)))) (c_id (target cobject))
            = Some (ctx_wrap cobject)"
    using h s l by (simp add: ctx_updateCallback_eq)
qed (simp_all add: ctx_wrap_unmarked ctx_wrap_marked ctx_wrap_proxied updateCallback_eq wrap_def)

text \<open>
  In the tag variant, processing the cached entry again stores it behind a second proxy.
\<close>

theorem wrapping_counterexample:
  "(let st = snd (updateCallback (Via 0 (plain ''u'' ''k'' [''a''] ()))
                (subscribe [Some ''a''] (initial None)));
        entry = Via 1 \<lparr>t_by = Some ''u'', t_key = Some ''k'', t_tags = [''a''],
                       t_id = FixedId ''uk'', t_payload = ()\<rparr>
    in objectMap st ''uk'' = Some entry
     \<and> objectMap (snd (updateCallback entry st)) ''uk'' = Some (Via 2 (target entry)))"
  by (simp add: run_defs tag_defs)

theorem wrapping_witness:
  "(let cobject = Via 0 (ctx_plain ''o'' [''a''] ());
        cst = ctx_subscribe [Some ''a''] ctx_initial;
        cst' = snd (ctx_updateCallback cobject cst);
        entry = Via 1 \<lparr>c_id = ''o'', c_context = [''a''], c_payload = (), marker = True\<rparr>;
        object = Via 0 (plain ''u'' ''k'' [''a''] ());
        st = subscribe [Some ''a''] (initial None)
    in \<not> marker (target cobject)
     \<and> (\<forall>c \<in> set (labels_of (target cobject)). \<not> inherited c) = True
     \<and> (\<exists>c \<in> set (labels_of (target cobject)). has_key c (contextMap cst))
     \<and> ctx_wrap cobject = entry
     \<and> marker (target entry) \<and> 0 < proxies entry
     \<and> ctx_wrap entry = entry
     \<and> ctx_objectMap cst' ''o'' = Some entry
     \<and> fst (ctx_updateCallback entry cst') = Inr entry
     \<and> ctx_objectMap (snd (ctx_updateCallback entry cst')) ''o'' = Some entry
     \<and> objectUUID (target object) = Inr ''uk''
     \<and> (\<exists>t \<in> set (t_tags (target object)). has_key t (tagMap st))
     \<and> (\<forall>t \<in> set (t_tags (target object)). \<not> inherited t) = True
     \<and> \<not> inherited ''uk''
     \<and> t_id (target object) = NoId
     \<and> objectMap (snd (updateCallback object st)) ''uk''
         = Some (Via 1 \<lparr>t_by = Some ''u'', t_key = Some ''k'', t_tags = [''a''],
                    t_id = FixedId ''uk'', t_payload = ()\<rparr>))"
  using wrapping [of "Via 0 (ctx_plain ''o'' [''a''] ())" "ctx_subscribe [Some ''a''] ctx_initial"
      "snd (ctx_updateCallback (Via 0 (ctx_plain ''o'' [''a''] ())) (ctx_subscribe [Some ''a''] ctx_initial))"
      "Via 0 (plain ''u'' ''k'' [''a''] ())" "''uk''" "subscribe [Some ''a''] (initial None)"]
    wrapping [of "Via 1 \<lparr>c_id = ''o'', c_context = [''a''], c_payload = (), marker = True\<rparr>"
      "snd (ctx_updateCallback (Via 0 (ctx_plain ''o'' [''a''] ())) (ctx_subscribe [Some ''a''] ctx_initial))"
      "snd (ctx_updateCallback (Via 0 (ctx_plain ''o'' [''a''] ())) (ctx_subscribe [Some ''a''] ctx_initial))"
      "Via 0 (plain ''u'' ''k'' [''a''] ())" "''uk''" "subscribe [Some ''a''] (initial None)"]
  by (simp add: run_defs tag_defs ctx_defs)

subsection \<open>Reconnection\<close>

lemma onOpen_eq:
  "onOpen st =
     (let cleared = st\<lparr>is_open := True, tagMap := map (\<lambda>(t, s). (t, s\<lparr>uuids := []\<rparr>)) (tagMap st),
                        objectMap := Map.empty\<rparr>
      in if tagMap st = [] then (Inr (), cleared)
         else (Inr (), cleared\<lparr>requests := requests st @ [Subscribe (keys (tagMap st))],
                               sent := sent st @ [Subscribe (keys (tagMap st))]\<rparr>))"
  by (simp add: onOpen_def request_def Let_def keys_def case_prod_unfold comp_def)

lemma ctx_onOpen_eq:
  "ctx_onOpen st =
     (let cleared = st\<lparr>is_open := True, contextMap := map (\<lambda>(t, s). (t, s\<lparr>ids := []\<rparr>)) (contextMap st),
                        ctx_objectMap := Map.empty\<rparr>
      in if contextMap st = [] then (Inr (), cleared)
         else (Inr (), cleared\<lparr>requests := requests st @ [Subscribe (keys (contextMap st))],
                               sent := sent st @ [Subscribe (keys (contextMap st))]\<rparr>))"
  by (simp add: ctx_onOpen_def request_def Let_def keys_def case_prod_unfold comp_def)



subsection \<open>Subscriptions\<close>

lemma map_of_snoc:
  "map_of (m @ [(k, v)]) k' =
     (case map_of m k' of Some x \<Rightarrow> Some x | None \<Rightarrow> if k' = k then Some v else None)"
  by (induction m) auto

lemma subscribe_loop_map_of:
  "map_of (fst (subscribe_loop tags tm acc)) t =
     (if t \<in> set tags
      then (case map_of tm t of
              Some s \<Rightarrow> Some (s\<lparr>count := count s + int (count_list tags t)\<rparr>)
            | None \<Rightarrow> if inherited t then None
                      else Some \<lparr>uuids = [], count = int (count_list tags t)\<rparr>)
      else map_of tm t)"
proof (induction tags arbitrary: tm acc)
  case Nil
  show ?case by simp
next
  case (Cons tag tags)
  show ?case
  proof (cases "js_in tag tm")
    case True
    then show ?thesis using Cons.IH [of "modify tag (\<lambda>s. s\<lparr>count := count s + 1\<rparr>) tm" acc]
      by (auto simp: map_of_modify js_in_def has_key_map_of split: option.splits)
  next
    case False
    then have "map_of tm tag = None" "\<not> inherited tag"
      by (simp_all add: js_in_def has_key_map_of)
    then show ?thesis using False Cons.IH [of "tm @ [(tag, \<lparr>uuids = [], count = 1\<rparr>)]" "acc @ [tag]"]
      by (auto simp: map_of_snoc split: option.splits)
  qed
qed

lemma non_null_map_Some [simp]: "non_null (map Some xs) = xs"
  by (induction xs) auto

lemma set_non_null: "set (non_null xs) = {x. Some x \<in> set xs}"
  by (induction xs rule: non_null.induct) auto

lemma subscribe_tagMap: "tagMap (subscribe tags0 st) = fst (subscribe_loop (non_null tags0) (tagMap st) [])"
  by (auto simp: subscribe_def request_def Let_def split: prod.splits)

lemma subscribe_objectMap: "objectMap (subscribe tags0 st) = objectMap st"
  by (auto simp: subscribe_def request_def Let_def split: prod.splits)

lemma ctx_subscribe_loop_map_of:
  "map_of (fst (ctx_subscribe_loop cs cm acc)) c =
     (if c \<in> set cs
      then (case map_of cm c of
              Some s \<Rightarrow> Some (s\<lparr>ctx_count := ctx_count s + int (count_list cs c)\<rparr>)
            | None \<Rightarrow> if inherited c then None
                      else Some \<lparr>ids = [], ctx_count = int (count_list cs c)\<rparr>)
      else map_of cm c)"
proof (induction cs arbitrary: cm acc)
  case Nil
  show ?case by simp
next
  case (Cons c' cs)
  show ?case
  proof (cases "js_in c' cm")
    case True
    then show ?thesis using Cons.IH [of "modify c' (\<lambda>s. s\<lparr>ctx_count := ctx_count s + 1\<rparr>) cm" acc]
      by (auto simp: map_of_modify js_in_def has_key_map_of split: option.splits)
  next
    case False
    then have "map_of cm c' = None" "\<not> inherited c'"
      by (simp_all add: js_in_def has_key_map_of)
    then show ?thesis using False Cons.IH [of "cm @ [(c', \<lparr>ids = [], ctx_count = 1\<rparr>)]" "acc @ [c']"]
      by (auto simp: map_of_snoc split: option.splits)
  qed
qed

lemma ctx_subscribe_contextMap:
  "contextMap (ctx_subscribe cs0 st) = fst (ctx_subscribe_loop (non_null cs0) (contextMap st) [])"
  by (auto simp: ctx_subscribe_def request_def Let_def split: prod.splits)

lemma ctx_subscribe_objectMap: "ctx_objectMap (ctx_subscribe cs0 st) = ctx_objectMap st"
  by (auto simp: ctx_subscribe_def request_def Let_def split: prod.splits)

lemma modify_snoc:
  "\<not> has_key k m \<Longrightarrow> modify k f (m @ [(k, v)]) = m @ [(k, f v)]"
  by (induction m) (auto simp: modify_def has_key_def keys_def)

lemma remove_key_snoc:
  "\<not> has_key k m \<Longrightarrow> remove_key k (m @ [(k, v)]) = m"
  by (induction m) (auto simp: remove_key_def has_key_def keys_def)

lemma has_key_snoc [simp]: "has_key k' (m @ [(k, v)]) \<longleftrightarrow> has_key k' m \<or> k' = k"
  by (auto simp: has_key_def keys_def)

text \<open>
  Claim C9, as the code has it. \<open>subscribe\<close>, in both editions, drops the \<open>null\<close> entries of
  its list and nothing else: the empty string is a label like any other. When no label of
  the list is an inherited name, a label that occurs in the list has a slot after the
  call: the slot it had, with its count raised by the number of its occurrences and its
  set untouched, or, when it had none, a new slot with an empty set and that number as its
  count (1 for a label listed once); every other label is as before. So \<open>null\<close> entries
  create nothing, and the cache is untouched.
\<close>

theorem subscribe_records:
  fixes st :: "'p tstate" and cst :: "'q cstate"
  shows
  "subscribe tags0 st = subscribe (map Some (non_null tags0)) st
   \<and> set (non_null tags0) = {t. Some t \<in> set tags0}
   \<and> ((\<forall>t' \<in> set (non_null tags0). \<not> inherited t') \<longrightarrow>
        map_of (tagMap (subscribe tags0 st)) t =
          (if Some t \<in> set tags0
           then Some (case map_of (tagMap st) t of
                        Some s \<Rightarrow> s\<lparr>count := count s + int (count_list (non_null tags0) t)\<rparr>
                      | None \<Rightarrow> \<lparr>uuids = [], count = int (count_list (non_null tags0) t)\<rparr>)
           else map_of (tagMap st) t)
      \<and> (has_key t (tagMap (subscribe tags0 st)) \<longleftrightarrow> has_key t (tagMap st) \<or> Some t \<in> set tags0))
   \<and> objectMap (subscribe tags0 st) = objectMap st
   \<and> ctx_subscribe tags0 cst = ctx_subscribe (map Some (non_null tags0)) cst
   \<and> ((\<forall>t' \<in> set (non_null tags0). \<not> inherited t') \<longrightarrow>
        map_of (contextMap (ctx_subscribe tags0 cst)) t =
          (if Some t \<in> set tags0
           then Some (case map_of (contextMap cst) t of
                        Some s \<Rightarrow> s\<lparr>ctx_count := ctx_count s + int (count_list (non_null tags0) t)\<rparr>
                      | None \<Rightarrow> \<lparr>ids = [], ctx_count = int (count_list (non_null tags0) t)\<rparr>)
           else map_of (contextMap cst) t)
      \<and> (has_key t (contextMap (ctx_subscribe tags0 cst))
           \<longleftrightarrow> has_key t (contextMap cst) \<or> Some t \<in> set tags0))
   \<and> ctx_objectMap (ctx_subscribe tags0 cst) = ctx_objectMap cst"
proof -
  have "subscribe tags0 st = subscribe (map Some (non_null tags0)) st"
    and "ctx_subscribe tags0 cst = ctx_subscribe (map Some (non_null tags0)) cst"
    by (simp_all add: subscribe_def ctx_subscribe_def)
  then show ?thesis
    by (auto simp: subscribe_tagMap subscribe_objectMap subscribe_loop_map_of set_non_null
        ctx_subscribe_contextMap ctx_subscribe_objectMap ctx_subscribe_loop_map_of has_key_map_of
        split: option.splits)
qed

text \<open>
  The claim as the specification words it fails for the empty string: \<open>subscribe\<close> keeps it
  and gives it a slot.
\<close>

theorem subscribe_records_counterexample:
  "map_of (tagMap (subscribe [Some ''''] (initial None))) '''' = Some \<lparr>uuids = [], count = 1\<rparr>
   \<and> map_of (contextMap (ctx_subscribe [Some ''''] ctx_initial)) '''' = Some \<lparr>ids = [], ctx_count = 1\<rparr>"
  by (simp add: run_defs tag_defs ctx_defs)

theorem subscribe_records_witness:
  "(let st = subscribe [Some ''b''] (initial None :: unit tstate);
        cst = ctx_subscribe [Some ''b''] (ctx_initial :: unit cstate)
    in (\<forall>t' \<in> set (non_null [None, Some '''', Some ''a'', Some ''a'']). \<not> inherited t') = True
     \<and> (\<forall>t' \<in> set (non_null [None, Some '''', Some ''b'', Some ''a'']). \<not> inherited t') = True
     \<and> map_of (tagMap (subscribe [None, Some '''', Some ''a'', Some ''a''] st)) ''a''
         = Some \<lparr>uuids = [], count = 2\<rparr>
     \<and> map_of (tagMap (subscribe [None, Some '''', Some ''b'', Some ''a''] st)) ''b''
         = Some \<lparr>uuids = [], count = 2\<rparr>
     \<and> keys (tagMap (subscribe [None, Some '''', Some ''b'', Some ''a''] st)) = [''b'', '''', ''a'']
     \<and> map_of (contextMap (ctx_subscribe [None, Some '''', Some ''a'', Some ''a''] cst)) ''a''
         = Some \<lparr>ids = [], ctx_count = 2\<rparr>
     \<and> map_of (contextMap (ctx_subscribe [None, Some '''', Some ''b'', Some ''a''] cst)) ''b''
         = Some \<lparr>ids = [], ctx_count = 2\<rparr>)"
  using subscribe_records [of "[None, Some '''', Some ''a'', Some ''a'']"
      "subscribe [Some ''b''] (initial None :: unit tstate)" "''a''"
      "ctx_subscribe [Some ''b''] (ctx_initial :: unit cstate)"]
    subscribe_records [of "[None, Some '''', Some ''b'', Some ''a'']"
      "subscribe [Some ''b''] (initial None :: unit tstate)" "''b''"
      "ctx_subscribe [Some ''b''] (ctx_initial :: unit cstate)"]
  by (simp add: run_defs tag_defs ctx_defs)

subsection \<open>Reference counts\<close>

lemma refcount_scenario:
  assumes "\<not> has_key t (tagMap st)" and "\<not> inherited t"
  shows "subscribe [Some t] st
           = snd (request (Subscribe [t]) (st\<lparr>tagMap := tagMap st @ [(t, \<lparr>uuids = [], count = 1\<rparr>)]\<rparr>))"
    and "tagMap st1 = tagMap st @ [(t, \<lparr>uuids = [], count = 1\<rparr>)] \<Longrightarrow>
         subscribe [Some t] st1 = st1\<lparr>tagMap := tagMap st @ [(t, \<lparr>uuids = [], count = 2\<rparr>)]\<rparr>"
    and "tagMap st2 = tagMap st @ [(t, \<lparr>uuids = [], count = 2\<rparr>)] \<Longrightarrow>
         unsubscribe [Some t] st2 = (Inr (), st2\<lparr>tagMap := tagMap st @ [(t, \<lparr>uuids = [], count = 1\<rparr>)]\<rparr>)"
    and "tagMap st3 = tagMap st @ [(t, \<lparr>uuids = [], count = 1\<rparr>)] \<Longrightarrow>
         unsubscribe [Some t] st3 = (Inr (), snd (request (Unsubscribe [t]) (st3\<lparr>tagMap := tagMap st\<rparr>)))"
  using assms
  by (simp_all add: subscribe_def unsubscribe_def modify_snoc remove_key_snoc map_of_snoc
      has_key_map_of js_in_def del: map_of_append split: option.splits)

lemma tagMap_request [simp]: "tagMap (snd (request m st)) = tagMap st"
  by (simp add: request_def Let_def)

text \<open>
  For a label that is not an inherited name and has no slot: after two \<open>subscribe\<close> calls and one \<open>unsubscribe\<close> the label has a slot with count
  1 and that \<open>unsubscribe\<close> made no request; the second \<open>unsubscribe\<close> removes the slot and
  makes exactly one request, \<open>unsubscribe\<close> of the list \<open>[t]\<close>.
\<close>

lemma subscribe_twice_unsubscribe_twice:
  fixes st :: "'p tstate"
  assumes new: "\<not> has_key t (tagMap st)" and ordinary: "\<not> inherited t"
  defines "s1 \<equiv> subscribe [Some t] st"
  defines "s2 \<equiv> subscribe [Some t] s1"
  defines "s3 \<equiv> snd (unsubscribe [Some t] s2)"
  defines "s4 \<equiv> snd (unsubscribe [Some t] s3)"
  shows "map_of (tagMap s1) t = Some \<lparr>uuids = [], count = 1\<rparr>
       \<and> requests s1 = requests st @ [Subscribe [t]]
       \<and> map_of (tagMap s2) t = Some \<lparr>uuids = [], count = 2\<rparr>
       \<and> requests s2 = requests s1
       \<and> fst (unsubscribe [Some t] s2) = Inr ()
       \<and> has_key t (tagMap s3) \<and> map_of (tagMap s3) t = Some \<lparr>uuids = [], count = 1\<rparr>
       \<and> requests s3 = requests s2 \<and> sent s3 = sent s2
       \<and> fst (unsubscribe [Some t] s3) = Inr ()
       \<and> \<not> has_key t (tagMap s4) \<and> tagMap s4 = tagMap st
       \<and> requests s4 = requests s3 @ [Unsubscribe [t]]
       \<and> sent s4 = (if is_open st then sent s3 @ [Unsubscribe [t]] else sent s3)"
proof -
  have none: "map_of (tagMap st) t = None" using new by (simp add: has_key_map_of)
  have s1: "s1 = snd (request (Subscribe [t]) (st\<lparr>tagMap := tagMap st @ [(t, \<lparr>uuids = [], count = 1\<rparr>)]\<rparr>))"
    unfolding s1_def using new ordinary by (rule refcount_scenario(1))
  then have t1: "tagMap s1 = tagMap st @ [(t, \<lparr>uuids = [], count = 1\<rparr>)]" by simp
  have s2: "s2 = s1\<lparr>tagMap := tagMap st @ [(t, \<lparr>uuids = [], count = 2\<rparr>)]\<rparr>"
    unfolding s2_def using new ordinary t1 by (rule refcount_scenario(2))
  then have t2: "tagMap s2 = tagMap st @ [(t, \<lparr>uuids = [], count = 2\<rparr>)]" by simp
  have u3: "unsubscribe [Some t] s2 = (Inr (), s2\<lparr>tagMap := tagMap st @ [(t, \<lparr>uuids = [], count = 1\<rparr>)]\<rparr>)"
    using new ordinary t2 by (rule refcount_scenario(3))
  then have s3: "s3 = s2\<lparr>tagMap := tagMap st @ [(t, \<lparr>uuids = [], count = 1\<rparr>)]\<rparr>"
    by (simp add: s3_def)
  then have t3: "tagMap s3 = tagMap st @ [(t, \<lparr>uuids = [], count = 1\<rparr>)]" by simp
  have u4: "unsubscribe [Some t] s3 = (Inr (), snd (request (Unsubscribe [t]) (s3\<lparr>tagMap := tagMap st\<rparr>)))"
    using new ordinary t3 by (rule refcount_scenario(4))
  then have s4: "s4 = snd (request (Unsubscribe [t]) (s3\<lparr>tagMap := tagMap st\<rparr>))"
    by (simp add: s4_def)
  have o3: "is_open s3 = is_open st" by (simp add: s3 s2 s1)
  show ?thesis
    using new none by (simp add: t1 t2 t3 u3 u4 s4 o3 map_of_snoc del: map_of_append) (simp add: s3 s2 s1)
qed

text \<open>
  Claim C3 asks this of every label. For the inherited name \<open>toString\<close> the tag variant
  diverges: \<open>tag in this.tagMap\<close> is true although nothing is subscribed, so each
  \<open>subscribe\<close> counts on the prototype's function, makes no slot and no request; the first
  \<open>unsubscribe\<close> already makes the request \<open>unsubscribe\<close> of \<open>[toString]\<close>, the second one makes
  it again, and the label has no slot with count 1 at any point.
\<close>

theorem refcount_inherited_label:
  "(let st = snd (onOpen (initial None :: unit tstate));
        s1 = subscribe [Some ''toString''] st;
        s2 = subscribe [Some ''toString''] s1;
        s3 = snd (unsubscribe [Some ''toString''] s2)
    in tagMap st = [] \<and> sent st = []
     \<and> tagMap s1 = [] \<and> sent s1 = []
     \<and> tagMap s2 = [] \<and> sent s2 = []
     \<and> fst (unsubscribe [Some ''toString''] s2) = Inr ()
     \<and> map_of (tagMap s3) ''toString'' = None
     \<and> sent s3 = [Unsubscribe [''toString'']]
     \<and> sent (snd (unsubscribe [Some ''toString''] s3))
         = [Unsubscribe [''toString''], Unsubscribe [''toString'']])"
  by (simp add: run_defs tag_defs)


subsection \<open>Rejected local updates\<close>

lemma delete_after_add:
  "\<forall>(t, s) \<in> set tm. t \<in> T \<longrightarrow> u \<notin> set (uuids s) \<Longrightarrow>
   map (\<lambda>(t, s). (t, if t \<in> T then s\<lparr>uuids := set_delete u (uuids s)\<rparr> else s))
     (map (\<lambda>(t, s). (t, if t \<in> T then s\<lparr>uuids := set_add u (uuids s)\<rparr> else s)) tm) = tm"
  by (induction tm) (auto simp: set_delete_add)

lemma delete_unlisted:
  "\<forall>(t, s) \<in> set tm. t \<in> T \<longrightarrow> u \<notin> set (uuids s) \<Longrightarrow>
   map (\<lambda>(t, s). (t, if t \<in> T then s\<lparr>uuids := set_delete u (uuids s)\<rparr> else s)) tm = tm"
  by (induction tm) (auto simp: set_delete_def)

lemma add_listed:
  "\<forall>(t, s) \<in> set tm. t \<in> T \<longrightarrow> u \<in> set (uuids s) \<Longrightarrow>
   map (\<lambda>(t, s). (t, if t \<in> T then s\<lparr>uuids := set_add u (uuids s)\<rparr> else s)) tm = tm"
  by (induction tm) (auto simp: set_add_member)

lemma stamp_fields [simp]:
  "t_tags (stamp me fresh object) = t_tags object"
  "t_id (stamp me fresh object) = t_id object"
  by (simp_all add: stamp_def)

lemma objectUUID_with_id [simp]: "objectUUID (with_id u object) = objectUUID object"
  by (simp add: objectUUID_def)

lemma update_rejected_new:
  fixes st :: "'p tstate"
  assumes uuid: "objectUUID (stamp (myID st) fresh object0) = Inr u"
    and tags: "\<forall>t \<in> set (t_tags object0). \<not> inherited t"
    and ordinary: "\<not> inherited u"
    and not_stale: "\<forall>v. t_id object0 = FixedId v \<longrightarrow> v = u"
    and new: "objectMap st u = None"
    and unlisted: "\<forall>(t, s) \<in> set (tagMap st). t \<in> set (t_tags object0) \<longrightarrow> u \<notin> set (uuids s)"
    and rejected: "\<not> is_open st \<or> r = ErrorReply"
  defines "m \<equiv> Update (snapshot (if \<exists>t \<in> set (t_tags object0). has_key t (tagMap st)
                                  then with_id u (stamp (myID st) fresh object0)
                                  else stamp (myID st) fresh object0))"
  shows "update object0 fresh r st =
     (Inl (if is_open st then ServerError else NotConnected),
      st\<lparr>requests := requests st @ [m],
         sent := (if is_open st then sent st @ [m] else sent st)\<rparr>)"
proof -
  define ob where "ob = stamp (myID st) fresh object0"
  have uuid': "objectUUID (target (Via 0 ob)) = Inr u" using uuid by (simp add: ob_def)
  have tags': "\<forall>t \<in> set (t_tags (target (Via 0 ob))). \<not> inherited t" using tags by (simp add: ob_def)
  have stale': "\<forall>v. t_id (target (Via 0 ob)) = FixedId v \<longrightarrow> v = u"
    using not_stale by (simp add: ob_def)
  have unlisted': "\<forall>(t, s) \<in> set (tagMap st). t \<in> set (t_tags ob) \<longrightarrow> u \<notin> set (uuids s)"
    using unlisted by (simp add: ob_def)
  have uw: "objectUUID (with_id u ob) = Inr u" and uo: "objectUUID ob = Inr u"
    using uuid by (simp_all add: ob_def)
  have tw: "\<forall>t \<in> set (t_tags (with_id u ob)). \<not> inherited t"
    and to: "\<forall>t \<in> set (t_tags ob). \<not> inherited t"
    using tags by (simp_all add: ob_def)
  have om: "(objectMap st)(u := None) = objectMap st" using new by (simp add: fun_upd_idem)
  have tgs: "t_tags ob = t_tags object0" by (simp add: ob_def)
  show ?thesis
    unfolding m_def ob_def [symmetric] update_def update_begin_def update_catch_def
    using rejected
    by (auto simp: updateCallback_eq [OF uuid' tags' ordinary stale']
        removeCallback_eq [OF uw tw] removeCallback_eq [OF uo to]
        request_def settle_def Let_def new om tgs
        delete_after_add [OF unlisted] delete_unlisted [OF unlisted] simp del: map_map)
qed

lemma update_rejected_existing:
  fixes st :: "'p tstate"
  assumes uuid: "objectUUID (stamp (myID st) fresh object0) = Inr u"
    and tags: "\<forall>t \<in> set (t_tags object0). \<not> inherited t"
    and ordinary: "\<not> inherited u"
    and not_stale: "\<forall>v. t_id object0 = FixedId v \<longrightarrow> v = u"
    and old: "objectMap st u = Some old"
    and old_uuid: "objectUUID (target old) = Inr u"
    and old_tags: "\<forall>t \<in> set (t_tags (target old)). \<not> inherited t"
    and new_sub: "\<exists>t \<in> set (t_tags object0). has_key t (tagMap st)"
    and old_sub: "\<exists>t \<in> set (t_tags (target old)). has_key t (tagMap st)"
    and listed: "\<forall>(t, s) \<in> set (tagMap st).
        t \<in> set (t_tags object0) \<union> set (t_tags (target old)) \<longrightarrow> u \<in> set (uuids s)"
    and rejected: "\<not> is_open st \<or> r = ErrorReply"
  defines "m \<equiv> Update (snapshot (with_id u (stamp (myID st) fresh object0)))"
  shows "update object0 fresh r st =
     (Inl (if is_open st then ServerError else NotConnected),
      st\<lparr>requests := requests st @ [m],
         sent := (if is_open st then sent st @ [m] else sent st),
         objectMap := (objectMap st)(u \<mapsto> Via 1 (with_id u (snapshot (target old))))\<rparr>)"
proof -
  define ob where "ob = stamp (myID st) fresh object0"
  define orig where "orig = snapshot (target old)"
  have uuid': "objectUUID (target (Via 0 ob)) = Inr u" using uuid by (simp add: ob_def)
  have tags': "\<forall>t \<in> set (t_tags (target (Via 0 ob))). \<not> inherited t" using tags by (simp add: ob_def)
  have stale': "\<forall>v. t_id (target (Via 0 ob)) = FixedId v \<longrightarrow> v = u"
    using not_stale by (simp add: ob_def)
  have ouuid: "objectUUID (target (Via 0 orig)) = Inr u" using old_uuid by (simp add: orig_def)
  have otags: "\<forall>t \<in> set (t_tags (target (Via 0 orig))). \<not> inherited t"
    using old_tags by (simp add: orig_def)
  have ostale: "\<forall>v. t_id (target (Via 0 orig)) = FixedId v \<longrightarrow> v = u"
    by (simp add: orig_def snapshot_not_fixed)
  have l1: "\<forall>(t, s) \<in> set (tagMap st). t \<in> set (t_tags ob) \<longrightarrow> u \<in> set (uuids s)"
    and l2: "\<forall>(t, s) \<in> set (tagMap st). t \<in> set (t_tags orig) \<longrightarrow> u \<in> set (uuids s)"
    using listed by (auto simp: ob_def orig_def)
  have s1: "\<exists>t \<in> set (t_tags ob). has_key t (tagMap st)" using new_sub by (simp add: ob_def)
  have s2: "\<exists>t \<in> set (t_tags orig). has_key t (tagMap st)" using old_sub by (simp add: orig_def)
  show ?thesis
    unfolding m_def ob_def [symmetric] orig_def [symmetric] update_def update_begin_def update_catch_def
    using rejected s1 s2
    by (auto simp: updateCallback_eq [OF uuid' tags' ordinary stale']
        updateCallback_eq [OF ouuid otags ordinary ostale]
        request_def settle_def Let_def old orig_def [symmetric] wrap_def
        add_listed [OF l1] add_listed [OF l2] simp del: map_map)
qed

lemma rewrap_snapshot: "t_id x = FixedId u \<Longrightarrow> with_id u (snapshot x) = x"
  by (cases x) (simp add: with_id_def snapshot_def)

lemma ctx_delete_after_add:
  "\<forall>(c, s) \<in> set cm. i \<notin> set (ids s) \<Longrightarrow>
   map (\<lambda>(c, s). (c, if c \<in> L then s\<lparr>ids := set_delete i (ids s)\<rparr> else s))
     (map (\<lambda>(c, s). (c, if c \<in> L then s\<lparr>ids := set_add i (ids s)\<rparr> else s)) cm) = cm"
  by (induction cm) (auto simp: set_delete_add)

lemma ctx_delete_unlisted:
  "\<forall>(c, s) \<in> set cm. i \<notin> set (ids s) \<Longrightarrow>
   map (\<lambda>(c, s). (c, if c \<in> L then s\<lparr>ids := set_delete i (ids s)\<rparr> else s)) cm = cm"
  by (induction cm) (auto simp: set_delete_def)

lemma ctx_remove_undoes_update:
  fixes st st2 :: "'p cstate"
  assumes labels: "\<forall>c \<in> set (labels_of (target ob)). \<not> inherited c"
    and new: "ctx_objectMap st (c_id (target ob)) = None"
    and unlisted: "\<forall>(c, s) \<in> set (contextMap st). c_id (target ob) \<notin> set (ids s)"
    and cm2: "contextMap st2 = contextMap (snd (ctx_updateCallback ob st))"
    and om2: "ctx_objectMap st2 = ctx_objectMap (snd (ctx_updateCallback ob st))"
  shows "ctx_removeCallback (target (ctx_wrap ob)) st2
           = st2\<lparr>contextMap := contextMap st, ctx_objectMap := ctx_objectMap st\<rparr>"
proof -
  have om: "(ctx_objectMap st)(c_id (target ob) := None) = ctx_objectMap st"
    using new by (simp add: fun_upd_idem)
  have no: "\<not> (\<exists>(c, s) \<in> set (contextMap st). c_id (target ob) \<in> set (ids s))"
    using unlisted by auto
  show ?thesis
  proof (cases "\<exists>c \<in> set (labels_of (target ob)). has_key c (contextMap st)")
    case True
    then have cm: "contextMap st2 = map (\<lambda>(c, s). (c, if c \<in> set (labels_of (target ob))
                     then s\<lparr>ids := set_add (c_id (target ob)) (ids s)\<rparr> else s)) (contextMap st)"
      and om': "ctx_objectMap st2 = (ctx_objectMap st)(c_id (target ob) \<mapsto> ctx_wrap ob)"
      using cm2 om2 by (simp_all add: ctx_updateCallback_eq [OF labels])
    have del: "map (\<lambda>(c, s). (c, if c \<in> set (labels_of (target ob))
                     then s\<lparr>ids := set_delete (c_id (target ob)) (ids s)\<rparr> else s)) (contextMap st2)
                 = contextMap st"
      unfolding cm by (rule ctx_delete_after_add [OF unlisted])
    show ?thesis
      using no ctx_removeCallback_eq [of "target (ctx_wrap ob)" st2]
      unfolding target_ctx_wrap del Let_def listed_after_delete
      by (simp add: om' om)
  next
    case False
    then have cm: "contextMap st2 = contextMap st" and om': "ctx_objectMap st2 = ctx_objectMap st"
      using cm2 om2 by (simp_all add: ctx_updateCallback_eq [OF labels])
    have del: "map (\<lambda>(c, s). (c, if c \<in> set (labels_of (target ob))
                     then s\<lparr>ids := set_delete (c_id (target ob)) (ids s)\<rparr> else s)) (contextMap st2)
                 = contextMap st"
      unfolding cm by (rule ctx_delete_unlisted [OF unlisted])
    show ?thesis
      using no ctx_removeCallback_eq [of "target (ctx_wrap ob)" st2]
      unfolding target_ctx_wrap del Let_def listed_after_delete
      by (simp add: om' om)
  qed
qed

lemma ctx_snapshot_wrap:
  "ctx_snapshot (target (ctx_wrap ob)) = ctx_snapshot (target ob)"
  by (simp add: ctx_snapshot_def ctx_wrap_def wrap_def)

lemma labels_of_dedupe:
  "labels_of (object0\<lparr>c_context := cs\<rparr>) = cs @ [c_id object0]"
  by (simp add: labels_of_def)

lemma set_foldl_set_add: "set (foldl (\<lambda>acc x. set_add x acc) acc xs) = set acc \<union> set xs"
  by (induction xs arbitrary: acc) auto

lemma set_dedupe [simp]: "set (dedupe xs) = set xs"
  by (simp add: dedupe_def set_foldl_set_add)

lemma post_rejected_new:
  fixes st :: "'p cstate"
  assumes labels: "\<forall>c \<in> set (labels_of object0). \<not> inherited c"
    and new: "ctx_objectMap st (c_id object0) = None"
    and unlisted: "\<forall>(c, s) \<in> set (contextMap st). c_id object0 \<notin> set (ids s)"
    and rejected: "\<not> is_open st \<or> r = ErrorReply"
  defines "ob \<equiv> Via 0 (object0\<lparr>c_context := dedupe (c_context object0)\<rparr>)"
  defines "m \<equiv> Update (ctx_snapshot (object0\<lparr>c_context := dedupe (c_context object0)\<rparr>))"
  shows "post object0 r st =
     (Inr (ctx_wrap ob),
      st\<lparr>requests := requests st @ [m],
         sent := (if is_open st then sent st @ [m] else sent st)\<rparr>)"
proof -
  define st1 where "st1 = snd (ctx_updateCallback ob st)"
  define st2 where "st2 = snd (request m st1)"
  have id: "c_id (target ob) = c_id object0" by (simp add: ob_def)
  have labels': "\<forall>c \<in> set (labels_of (target ob)). \<not> inherited c"
    using labels by (simp add: ob_def labels_of_def)
  have msg: "Update (ctx_snapshot (target (ctx_wrap ob))) = m"
    by (simp add: ctx_snapshot_wrap m_def ob_def)
  have upd: "ctx_updateCallback ob st = (Inr (ctx_wrap ob), st1)"
    by (simp add: st1_def ctx_updateCallback_eq [OF labels'])
  have req: "request m st1 = (if is_open st then Inr () else Inl NotConnected, st2)"
    by (simp add: st2_def st1_def request_def Let_def)
  have rej: "settle (if is_open st then Inr () else Inl NotConnected) r
               = Inl (if is_open st then ServerError else NotConnected)"
    using rejected by (auto simp: settle_def)
  have undo: "ctx_removeCallback (target (ctx_wrap ob)) st2
                = st2\<lparr>contextMap := contextMap st, ctx_objectMap := ctx_objectMap st\<rparr>"
    by (rule ctx_remove_undoes_update [OF labels'])
      (simp_all add: id new unlisted st2_def st1_def request_def Let_def)
  have fin: "st2\<lparr>contextMap := contextMap st, ctx_objectMap := ctx_objectMap st\<rparr>
      = st\<lparr>requests := requests st @ [m],
           sent := (if is_open st then sent st @ [m] else sent st)\<rparr>"
    by (simp add: st2_def st1_def request_def Let_def ctx_updateCallback_eq [OF labels'])
  show ?thesis
    unfolding post_def post_begin_def post_catch_def ob_def [symmetric]
    by (simp add: upd msg req rej undo fin)
qed





subsection \<open>Unsubscribing and the cache\<close>

text \<open>
  Claim C1 does not hold of the code. Context variant: after subscribing to \<open>news\<close>,
  receiving an object filed under \<open>news\<close> only and unsubscribing from \<open>news\<close>, the registry
  is empty and the object is still cached (\<open>keysLeft\<close> is zero, and the entry is deleted
  only when it is not); an object filed under \<open>a\<close> and \<open>b\<close>, both subscribed, is deleted
  from the cache by unsubscribing from \<open>a\<close> alone although the set of \<open>b\<close> still lists it,
  and unsubscribing from \<open>b\<close> then throws on the missing entry, leaving the slot of \<open>b\<close> with
  count zero. Tag variant: \<open>unsubscribe\<close> never touches the cache.
\<close>

theorem unsubscribe_keeps_unmatched_objects:
  "(let cst = snd (ctx_updateCallback (Via 0 (ctx_plain ''a1'' [''news''] ()))
                (snd (ctx_onOpen (ctx_subscribe [Some ''news''] ctx_initial))))
    in ctx_objectMap cst ''a1''
         = Some (Via 1 \<lparr>c_id = ''a1'', c_context = [''news''], c_payload = (), marker = True\<rparr>)
     \<and> ctx_unsubscribe [Some ''news''] cst
         = (Inr (),
            \<lparr>is_open = True,
             requests = [Subscribe [''news''], Subscribe [''news''], Unsubscribe [''news'']],
             sent = [Subscribe [''news''], Unsubscribe [''news'']],
             contextMap = [],
             ctx_objectMap = [''a1'' \<mapsto> Via 1 \<lparr>c_id = ''a1'', c_context = [''news''],
                                         c_payload = (), marker = True\<rparr>]\<rparr>))
   \<and> (let cst = snd (ctx_updateCallback (Via 0 (ctx_plain ''o'' [''a'', ''b''] ()))
                (snd (ctx_onOpen (ctx_subscribe [Some ''a'', Some ''b''] ctx_initial))));
        cst' = snd (ctx_unsubscribe [Some ''a''] cst)
    in contextMap cst' = [(''b'', \<lparr>ids = [''o''], ctx_count = 1\<rparr>)]
     \<and> ctx_objectMap cst' ''o'' = None
     \<and> ctx_unsubscribe [Some ''b''] cst' = (Inl TypeError, cst'\<lparr>contextMap := [(''b'', \<lparr>ids = [''o''], ctx_count = 0\<rparr>)]\<rparr>))
   \<and> (let st = snd (updateCallback (Via 0 (plain ''u'' ''k'' [''news''] ()))
                (snd (onOpen (subscribe [Some ''news''] (initial None)))));
        st' = snd (unsubscribe [Some ''news''] st)
    in tagMap st' = []
     \<and> objectMap st' ''uk''
         = Some (Via 1 \<lparr>t_by = Some ''u'', t_key = Some ''k'', t_tags = [''news''],
                    t_id = FixedId ''uk'', t_payload = ()\<rparr>))"
  by (simp add: run_defs tag_defs ctx_defs)

subsection \<open>Cache identifiers\<close>

lemma objectUUID_iff:
  "objectUUID object = Inr u \<longleftrightarrow>
     (\<exists>b k. t_by object = Some b \<and> t_key object = Some k \<and> b \<noteq> [] \<and> k \<noteq> [] \<and> u = b @ k)"
  by (auto simp: objectUUID_def split: option.splits)

text \<open>
  Claim C10. \<open>#objectUUID\<close> is the concatenation of \<open>_by\<close> and \<open>_key\<close> without a separator
  (when both are non-empty strings), so it is not injective on pairs of owner and key:
  owner \<open>ab\<close> with key \<open>c\<close> and owner \<open>a\<close> with key \<open>bc\<close> both give \<open>abc\<close>, and after pushes
  of two such objects the cache has the single entry \<open>abc\<close>, holding the second one.
\<close>

theorem cache_identifier_not_injective:
  "(objectUUID object = Inr u \<longleftrightarrow>
     (\<exists>b k. t_by object = Some b \<and> t_key object = Some k \<and> b \<noteq> [] \<and> k \<noteq> [] \<and> u = b @ k))
   \<and> objectUUID (plain ''ab'' ''c'' tags p) = Inr ''abc''
   \<and> objectUUID (plain ''a'' ''bc'' tags' p') = Inr ''abc''
   \<and> ''ab'' \<noteq> ''a'' \<and> ''c'' \<noteq> ''bc''
   \<and> objectMap (snd (updateCallback (Via 0 (plain ''a'' ''bc'' [''t''] p'))
         (snd (updateCallback (Via 0 (plain ''ab'' ''c'' [''t''] p)) (subscribe [Some ''t''] (initial me))))))
       = [''abc'' \<mapsto> wrap (Via 0 ((plain ''a'' ''bc'' [''t''] p')\<lparr>t_id := FixedId ''abc''\<rparr>))]"
  by (simp add: objectUUID_iff) (simp add: run_defs tag_defs)

end
